theory Spec2Isabelle
  imports Main
begin

section \<open>JavaScript strings, regular expressions and \<open>String.prototype.replace\<close>\<close>

text \<open>
  The server (\<^verbatim>\<open>backend/server.js\<close>) is JavaScript. A JavaScript string is a sequence of
  UTF-16 code units; it is modelled as the list of their numbers. The regular
  expressions of the source have no \<^verbatim>\<open>u\<close> flag, so they work code unit by code unit
  as the model does. \<open>ustr\<close> gives the code units of a text written with characters
  below 256, each of which is one code unit.
\<close>

type_synonym jstring = "nat list"

definition ustr :: "string \<Rightarrow> jstring" where
  "ustr s = map of_char s"

abbreviation BSL :: nat where "BSL \<equiv> 92"
abbreviation DOLLAR :: nat where "DOLLAR \<equiv> 36"
abbreviation AMPERSAND :: nat where "AMPERSAND \<equiv> 38"
abbreviation APOSTROPHE :: nat where "APOSTROPHE \<equiv> 39"
abbreviation BACKTICK :: nat where "BACKTICK \<equiv> 96"
abbreviation LBRACE :: nat where "LBRACE \<equiv> 123"
abbreviation RBRACE :: nat where "RBRACE \<equiv> 125"

text \<open>\<^verbatim>\<open>s.includes(p)\<close>: \<open>p\<close> occurs in \<open>s\<close> as a contiguous substring.\<close>

fun includes_str :: "jstring \<Rightarrow> jstring \<Rightarrow> bool" where
  "includes_str [] p = (p = [])"
| "includes_str (c # cs) p = (take (length p) (c # cs) = p \<or> includes_str cs p)"

text \<open>
  The regular expressions the source builds have four shapes:
  \<^item> \<open>Lit p\<close>: the literal text \<open>p\<close> (every special character escaped);
  \<^item> \<open>OneOf cs\<close>: a character class \<^verbatim>\<open>[...]\<close>, one code unit of \<open>cs\<close>;
  \<^item> \<open>NoneOf cs\<close>: a negated class \<^verbatim>\<open>[^...]\<close>, one code unit not in \<open>cs\<close>;
  \<^item> \<open>Defn p\<close>: \<^verbatim>\<open>(p)[^}]*?(\})\<close>, the literal \<open>p\<close> as group 1, then the shortest
    run of code units other than a closing brace, then a closing brace as group 2.
\<close>

datatype regex = Lit jstring | OneOf jstring | NoneOf jstring | Defn jstring

text \<open>
  A match that starts at the head of the text: its length and its capture groups.
  For \<open>Defn\<close> the lazy body ends at the first closing brace after the prefix, and
  there is no match when no closing brace follows.
\<close>

fun match_here :: "regex \<Rightarrow> jstring \<Rightarrow> (nat \<times> jstring list) option" where
  "match_here (Lit p) s = (if take (length p) s = p then Some (length p, []) else None)"
| "match_here (OneOf cs) s =
     (case s of [] \<Rightarrow> None | c # _ \<Rightarrow> if c \<in> set cs then Some (1, []) else None)"
| "match_here (NoneOf cs) s =
     (case s of [] \<Rightarrow> None | c # _ \<Rightarrow> if c \<in> set cs then None else Some (1, []))"
| "match_here (Defn p) s =
     (if take (length p) s = p then
        (let rest = drop (length p) s;
             body = takeWhile (\<lambda>c. c \<noteq> RBRACE) rest
         in if body = rest then None
            else Some (length p + length body + 1, [p, [RBRACE]]))
      else None)"

text \<open>The decimal digits \<^verbatim>\<open>0\<close> to \<^verbatim>\<open>9\<close> are the code units 48 to 57.\<close>

definition is_digit :: "nat \<Rightarrow> bool" where
  "is_digit c = (48 \<le> c \<and> c \<le> 57)"

definition digit_val :: "nat \<Rightarrow> nat" where
  "digit_val c = c - 48"

text \<open>
  The replacement text of \<^verbatim>\<open>replace\<close> is a template (ECMAScript's GetSubstitution):
  \<^verbatim>\<open>$$\<close> is a dollar sign, \<^verbatim>\<open>$&\<close> the matched text, \<^verbatim>\<open>$`\<close> the text before the
  match, \<^verbatim>\<open>$'\<close> the text after it, \<^verbatim>\<open>$n\<close> and \<^verbatim>\<open>$nn\<close> a capture group when the
  expression has that many groups (a two-digit reference beyond the number of groups
  is read as a one-digit reference and a digit); any other dollar sign stands for
  itself. The expressions here have no named groups, so \<^verbatim>\<open>$<\<close> is literal.
\<close>

fun get_substitution :: "jstring \<Rightarrow> jstring \<Rightarrow> jstring \<Rightarrow> jstring list \<Rightarrow> jstring \<Rightarrow> jstring" where
  "get_substitution m pre post caps [] = []"
| "get_substitution m pre post caps [c] = [c]"
| "get_substitution m pre post caps (c # d # r) =
     (if c \<noteq> DOLLAR then c # get_substitution m pre post caps (d # r)
      else if d = DOLLAR then DOLLAR # get_substitution m pre post caps r
      else if d = AMPERSAND then m @ get_substitution m pre post caps r
      else if d = BACKTICK then pre @ get_substitution m pre post caps r
      else if d = APOSTROPHE then post @ get_substitution m pre post caps r
      else if is_digit d then
        (case r of
           e # r' \<Rightarrow>
             if is_digit e \<and> 10 * digit_val d + digit_val e \<le> length caps then
               (if 1 \<le> 10 * digit_val d + digit_val e
                then caps ! (10 * digit_val d + digit_val e - 1) @ get_substitution m pre post caps r'
                else DOLLAR # d # e # get_substitution m pre post caps r')
             else if 1 \<le> digit_val d \<and> digit_val d \<le> length caps
             then caps ! (digit_val d - 1) @ get_substitution m pre post caps (e # r')
             else DOLLAR # d # get_substitution m pre post caps (e # r')
         | [] \<Rightarrow>
             if 1 \<le> digit_val d \<and> digit_val d \<le> length caps
             then caps ! (digit_val d - 1)
             else [DOLLAR, d])
      else DOLLAR # get_substitution m pre post caps (d # r))"

lemma take_eq_imp_le: "take (length p) s = p \<Longrightarrow> length p \<le> length s"
proof -
  assume "take (length p) s = p"
  then have "length (take (length p) s) = length p" by simp
  then show ?thesis by simp
qed

lemma takeWhile_neq_imp_less: "takeWhile P xs \<noteq> xs \<Longrightarrow> length (takeWhile P xs) < length xs"
  by (induction xs) (auto split: if_splits)

lemma match_here_length: "match_here re s = Some (n, caps) \<Longrightarrow> n \<le> length s"
proof (cases re)
  case (Lit p)
  assume "match_here re s = Some (n, caps)"
  with Lit have "take (length p) s = p" and "n = length p"
    by (auto split: if_splits)
  then show ?thesis
    using take_eq_imp_le by blast
next
  case (OneOf cs)
  assume "match_here re s = Some (n, caps)"
  with OneOf show ?thesis by (cases s) (auto split: if_splits)
next
  case (NoneOf cs)
  assume "match_here re s = Some (n, caps)"
  with NoneOf show ?thesis by (cases s) (auto split: if_splits)
next
  case (Defn p)
  assume m: "match_here re s = Some (n, caps)"
  let ?rest = "drop (length p) s"
  let ?body = "takeWhile (\<lambda>c. c \<noteq> RBRACE) ?rest"
  from m Defn have p: "take (length p) s = p" and ne: "?body \<noteq> ?rest"
    and n: "n = length p + length ?body + 1"
    by (auto simp: Let_def split: if_splits)
  have "length p \<le> length s" using p by (rule take_eq_imp_le)
  moreover have "length ?body < length ?rest"
    using ne by (rule takeWhile_neq_imp_less)
  ultimately show ?thesis using n by simp
qed

text \<open>
  \<^verbatim>\<open>s.replace(re, tmpl)\<close> for an expression with the \<^verbatim>\<open>g\<close> flag: the text is scanned
  from the left; at the leftmost match its replacement is written and the scan goes on
  after the match (one code unit further on after an empty match). \<open>pre\<close> is the part
  of the original text already passed.
\<close>

function replace_from :: "regex \<Rightarrow> jstring \<Rightarrow> jstring \<Rightarrow> jstring \<Rightarrow> jstring" where
  "replace_from re tmpl pre s =
     (case match_here re s of
        None \<Rightarrow> (case s of [] \<Rightarrow> [] | c # cs \<Rightarrow> c # replace_from re tmpl (pre @ [c]) cs)
      | Some (n, caps) \<Rightarrow>
          get_substitution (take n s) pre (drop n s) caps tmpl @
          (if n = 0 then (case s of [] \<Rightarrow> [] | c # cs \<Rightarrow> c # replace_from re tmpl (pre @ [c]) cs)
           else replace_from re tmpl (pre @ take n s) (drop n s)))"
  by pat_completeness auto
termination
proof (relation "measure (\<lambda>(re, tmpl, pre, s). length s)")
  show "wf (measure (\<lambda>(re, tmpl, pre, s). length s))" by simp
next
  fix re :: regex and tmpl pre s :: jstring and c cs
  assume "s = c # cs"
  then show "((re, tmpl, pre @ [c], cs), (re, tmpl, pre, s)) \<in> measure (\<lambda>(re, tmpl, pre, s). length s)"
    by simp
next
  fix re :: regex and tmpl pre s :: jstring and x2 n caps c cs
  assume "s = c # cs"
  then show "((re, tmpl, pre @ [c], cs), (re, tmpl, pre, s)) \<in> measure (\<lambda>(re, tmpl, pre, s). length s)"
    by simp
next
  fix re :: regex and tmpl pre s :: jstring and x2 :: "nat \<times> jstring list" and n caps
  assume "match_here re s = Some x2" and "(n, caps) = x2" and "n \<noteq> 0"
  then have "n \<le> length s" and "0 < n"
    using match_here_length [of re s n caps] by auto
  then show "((re, tmpl, pre @ take n s, drop n s), (re, tmpl, pre, s)) \<in> measure (\<lambda>(re, tmpl, pre, s). length s)"
    by simp
qed

declare replace_from.simps [simp del]

definition replace_g :: "regex \<Rightarrow> jstring \<Rightarrow> jstring \<Rightarrow> jstring" where
  "replace_g re tmpl s = replace_from re tmpl [] s"

text \<open>Whether the expression matches at the head of the text, and anywhere in it.\<close>

definition matches_at :: "regex \<Rightarrow> jstring \<Rightarrow> bool" where
  "matches_at re s = (case match_here re s of None \<Rightarrow> False | Some m \<Rightarrow> True)"

fun has_match :: "regex \<Rightarrow> jstring \<Rightarrow> bool" where
  "has_match re [] = matches_at re []"
| "has_match re (c # cs) = (if matches_at re (c # cs) then True else has_match re cs)"

text \<open>
  Whether every match the scan of \<^verbatim>\<open>replace\<close> finds is replaced by its own text: the
  scan of \<open>replace_from\<close>, comparing each replacement with what it replaces.
\<close>

function stable_from :: "regex \<Rightarrow> jstring \<Rightarrow> jstring \<Rightarrow> jstring \<Rightarrow> bool" where
  "stable_from re tmpl pre s =
     (case match_here re s of
        None \<Rightarrow> (case s of [] \<Rightarrow> True | c # cs \<Rightarrow> stable_from re tmpl (pre @ [c]) cs)
      | Some (n, caps) \<Rightarrow>
          get_substitution (take n s) pre (drop n s) caps tmpl = take n s \<and>
          (if n = 0 then (case s of [] \<Rightarrow> True | c # cs \<Rightarrow> stable_from re tmpl (pre @ [c]) cs)
           else stable_from re tmpl (pre @ take n s) (drop n s)))"
  by pat_completeness auto
termination
proof (relation "measure (\<lambda>(re, tmpl, pre, s). length s)")
  show "wf (measure (\<lambda>(re, tmpl, pre, s). length s))" by simp
next
  fix re :: regex and tmpl pre s :: jstring and c cs
  assume "s = c # cs"
  then show "((re, tmpl, pre @ [c], cs), (re, tmpl, pre, s)) \<in> measure (\<lambda>(re, tmpl, pre, s). length s)"
    by simp
next
  fix re :: regex and tmpl pre s :: jstring and x2 n caps c cs
  assume "s = c # cs"
  then show "((re, tmpl, pre @ [c], cs), (re, tmpl, pre, s)) \<in> measure (\<lambda>(re, tmpl, pre, s). length s)"
    by simp
next
  fix re :: regex and tmpl pre s :: jstring and x2 :: "nat \<times> jstring list" and n caps
  assume "match_here re s = Some x2" and "(n, caps) = x2" and "n \<noteq> 0"
  then have "n \<le> length s" and "0 < n"
    using match_here_length [of re s n caps] by auto
  then show "((re, tmpl, pre @ take n s, drop n s), (re, tmpl, pre, s)) \<in> measure (\<lambda>(re, tmpl, pre, s). length s)"
    by simp
qed

declare stable_from.simps [simp del]

definition stable :: "regex \<Rightarrow> jstring \<Rightarrow> jstring \<Rightarrow> bool" where
  "stable re tmpl s = stable_from re tmpl [] s"

section \<open>Escaping a value for LaTeX\<close>

text \<open>
  \<^verbatim>\<open>
  function escapeLatex(text) {
    if (typeof text !== 'string') return text;
    return text
      .replace(/\\/g, '\\textbackslash{}')
      .replace(/[{}]/g, '\\$&')
      .replace(/[$&%#^_~]/g, '\\$&')
      .replace(/\textbackslash\{\}/g, '\\textbackslash{}');
  }
  \<close>
  Its one caller passes \<^verbatim>\<open>String(...)\<close>, so the argument is a string. In the last
  expression \<^verbatim>\<open>\t\<close> is the tab character (code unit 9): the expression is a tab
  followed by \<^verbatim>\<open>extbackslash{}\<close>.
\<close>

definition escapeLatex :: "jstring \<Rightarrow> jstring" where
  "escapeLatex text =
     replace_g (Lit (9 # ustr ''extbackslash{}'')) (BSL # ustr ''textbackslash{}'')
       (replace_g (OneOf (ustr ''$&%#^_~'')) [BSL, DOLLAR, AMPERSAND]
         (replace_g (OneOf (ustr ''{}'')) [BSL, DOLLAR, AMPERSAND]
           (replace_g (Lit [BSL]) (BSL # ustr ''textbackslash{}'') text)))"

section \<open>JSON values\<close>

text \<open>
  A value parsed from JSON. A number is kept as the text \<^verbatim>\<open>String(n)\<close> gives for it
  (all the source reads of a number is that text and whether the number is zero, and
  \<^verbatim>\<open>String\<close> gives \<^verbatim>\<open>0\<close> exactly for zero). An object is the list of its own
  properties in enumeration order, each key once.
\<close>

datatype json =
    JNull
  | JBool bool
  | JNum jstring
  | JStr jstring
  | JArr "json list"
  | JObj "(jstring \<times> json) list"

text \<open>JavaScript truthiness, as \<^verbatim>\<open>v || ''\<close> and \<^verbatim>\<open>item && ...\<close> test it.\<close>

fun truthy :: "json \<Rightarrow> bool" where
  "truthy JNull = False"
| "truthy (JBool b) = b"
| "truthy (JNum n) = (n \<noteq> ustr ''0'')"
| "truthy (JStr s) = (s \<noteq> [])"
| "truthy (JArr xs) = True"
| "truthy (JObj kvs) = True"

text \<open>\<^verbatim>\<open>typeof v === 'object'\<close>: true of objects, arrays and \<^verbatim>\<open>null\<close>.\<close>

fun typeof_object :: "json \<Rightarrow> bool" where
  "typeof_object JNull = True"
| "typeof_object (JArr xs) = True"
| "typeof_object (JObj kvs) = True"
| "typeof_object v = False"

fun join_comma :: "jstring list \<Rightarrow> jstring" where
  "join_comma [] = []"
| "join_comma [s] = s"
| "join_comma (s # t # ss) = s @ ustr '','' @ join_comma (t # ss)"

text \<open>
  \<^verbatim>\<open>String(v)\<close>; \<open>None\<close> is the \<^verbatim>\<open>TypeError\<close> it throws. An array is joined with
  commas, its \<^verbatim>\<open>null\<close> elements giving the empty text and the others their own
  \<^verbatim>\<open>String\<close>. An object gives \<^verbatim>\<open>[object Object]\<close> through the \<^verbatim>\<open>toString\<close> it
  inherits; an object parsed from JSON with a property \<^verbatim>\<open>toString\<close> of its own hides
  that function by a value that cannot be called, and the conversion throws (the
  \<^verbatim>\<open>valueOf\<close> tried next gives no primitive value either).
\<close>

fun js_String :: "json \<Rightarrow> jstring option" where
  "js_String JNull = Some (ustr ''null'')"
| "js_String (JBool b) = Some (if b then ustr ''true'' else ustr ''false'')"
| "js_String (JNum n) = Some n"
| "js_String (JStr s) = Some s"
| "js_String (JArr xs) =
     map_option join_comma (those (map (\<lambda>x. if x = JNull then Some [] else js_String x) xs))"
| "js_String (JObj kvs) =
     (case map_of kvs (ustr ''toString'') of
        None \<Rightarrow> Some (ustr ''[object Object]'')
      | Some own \<Rightarrow> None)"

text \<open>
  \<^verbatim>\<open>String(v || '')\<close>, where the argument \<open>None\<close> is \<^verbatim>\<open>undefined\<close> and the result
  \<open>None\<close> the \<^verbatim>\<open>TypeError\<close>.
\<close>

definition string_or_empty :: "json option \<Rightarrow> jstring option" where
  "string_or_empty v =
     (case v of None \<Rightarrow> Some [] | Some x \<Rightarrow> if truthy x then js_String x else Some [])"

fun decimal :: "nat \<Rightarrow> jstring" where
  "decimal n =
     (if n < 10 then [48 + n]
      else decimal (n div 10) @ [48 + n mod 10])"

text \<open>
  \<^verbatim>\<open>Object.entries(v)\<close> for a value whose \<^verbatim>\<open>typeof\<close> is \<^verbatim>\<open>'object'\<close>: the properties of
  an object, the elements of an array under their indices, and a \<^verbatim>\<open>TypeError\<close>
  (\<open>None\<close>) for \<^verbatim>\<open>null\<close>.
\<close>

fun object_entries :: "json \<Rightarrow> (jstring \<times> json) list option" where
  "object_entries (JObj kvs) = Some kvs"
| "object_entries (JArr xs) = Some (zip (map decimal [0..<length xs]) xs)"
| "object_entries v = None"

section \<open>Value injection\<close>

text \<open>
  The five expressions \<^verbatim>\<open>/generate-pdf\<close> builds for a key. The key is escaped
  (\<^verbatim>\<open>key.replace(/[.*+?^${}()|[\]\\]/g, '\\$&')\<close>) before it is put into the source of
  the expression, so in each of them the key stands for its literal text:
  \<^verbatim>\<open>
  newCmdRegex      (\\newcommand\{\\KEY\}\{)[^}]*?(\})
  defRegex         (\\def\\KEY\{)[^}]*?(\})
  placeholderRegex \{KEY\}
  varRegex         \\VAR\{KEY\}
  bracketRegex     <<KEY>>
  \<close>
\<close>

definition newCmdRegex :: "jstring \<Rightarrow> regex" where
  "newCmdRegex key = Defn (BSL # ustr ''newcommand{'' @ BSL # key @ ustr ''}{'')"

definition defRegex :: "jstring \<Rightarrow> regex" where
  "defRegex key = Defn (BSL # ustr ''def'' @ BSL # key @ ustr ''{'')"

definition placeholderRegex :: "jstring \<Rightarrow> regex" where
  "placeholderRegex key = Lit (ustr ''{'' @ key @ ustr ''}'')"

definition varRegex :: "jstring \<Rightarrow> regex" where
  "varRegex key = Lit (BSL # ustr ''VAR{'' @ key @ ustr ''}'')"

definition bracketRegex :: "jstring \<Rightarrow> regex" where
  "bracketRegex key = Lit (ustr ''<<'' @ key @ ustr ''>>'')"

text \<open>
  The five replacements of the loop body, for an escaped value:
  \<^verbatim>\<open>
  processed = processed.replace(newCmdRegex, `$1${safeVal}$2`);
  processed = processed.replace(defRegex, `$1${safeVal}$2`);
  processed = processed.replace(placeholderRegex, safeVal);
  processed = processed.replace(varRegex, safeVal);
  processed = processed.replace(bracketRegex, safeVal);
  \<close>
  The escaped value is the replacement template of each call.
\<close>

definition replace_five :: "jstring \<Rightarrow> jstring \<Rightarrow> jstring \<Rightarrow> jstring" where
  "replace_five key safeVal processed =
     (let p1 = replace_g (newCmdRegex key) (ustr ''$1'' @ safeVal @ ustr ''$2'') processed;
          p2 = replace_g (defRegex key) (ustr ''$1'' @ safeVal @ ustr ''$2'') p1;
          p3 = replace_g (placeholderRegex key) safeVal p2;
          p4 = replace_g (varRegex key) safeVal p3
      in replace_g (bracketRegex key) safeVal p4)"

text \<open>
  The body of the loop over \<^verbatim>\<open>Object.entries(values)\<close>, which starts with
  \<^verbatim>\<open>const safeVal = escapeLatex(String(val || ''))\<close>; \<open>None\<close> when \<^verbatim>\<open>String\<close> throws.
\<close>

definition substitute_entry :: "jstring \<Rightarrow> jstring \<times> json \<Rightarrow> jstring option" where
  "substitute_entry processed kv =
     (case string_or_empty (Some (snd kv)) of
        None \<Rightarrow> None
      | Some text \<Rightarrow> Some (replace_five (fst kv) (escapeLatex text) processed))"

text \<open>The loop: the entries in order, ended by the first error thrown.\<close>

fun substitute :: "jstring \<Rightarrow> (jstring \<times> json) list \<Rightarrow> jstring option" where
  "substitute processed [] = Some processed"
| "substitute processed (kv # entries) =
     (case substitute_entry processed kv of
        None \<Rightarrow> None
      | Some p \<Rightarrow> substitute p entries)"

datatype marker = DocumentClass | BeginDocument

fun marker_text :: "marker \<Rightarrow> jstring" where
  "marker_text DocumentClass = BSL # ustr ''documentclass''"
| "marker_text BeginDocument = BSL # ustr ''begin{document}''"

text \<open>
  The errors of the first half of \<^verbatim>\<open>/generate-pdf\<close>: status 400 \<^verbatim>\<open>Invalid payload\<close>,
  status 400 \<^verbatim>\<open>Invalid LaTeX template: Missing ...\<close> naming a marker, and status 500
  \<^verbatim>\<open>Error processing template\<close> when the \<^verbatim>\<open>try\<close> block throws.
\<close>

datatype inject_error = InvalidPayload | MissingStructure marker | ProcessingError

text \<open>
  The two structure checks after the loop:
  \<^verbatim>\<open>
  if (!processed.includes('\\documentclass')) return res.status(400).json({...});
  if (!processed.includes('\\begin{document}')) return res.status(400).json({...});
  \<close>
\<close>

definition check_structure :: "jstring \<Rightarrow> inject_error + jstring" where
  "check_structure processed =
     (if \<not> includes_str processed (marker_text DocumentClass)
      then Inl (MissingStructure DocumentClass)
      else if \<not> includes_str processed (marker_text BeginDocument)
      then Inl (MissingStructure BeginDocument)
      else Inr processed)"

text \<open>
  The \<^verbatim>\<open>try\<close> block: the substitution loop, then the two structure checks. What
  \<^verbatim>\<open>Object.entries\<close> or \<^verbatim>\<open>String\<close> throws is caught and answered with status 500.
\<close>

definition process_template :: "jstring \<Rightarrow> json \<Rightarrow> inject_error + jstring" where
  "process_template template vals =
     (case object_entries vals of
        None \<Rightarrow> Inl ProcessingError
      | Some entries \<Rightarrow>
          (case substitute template entries of
             None \<Rightarrow> Inl ProcessingError
           | Some processed \<Rightarrow> check_structure processed))"

text \<open>
  \<^verbatim>\<open>const { template, values } = req.body\<close> and the payload check; \<open>None\<close> is a
  property the body does not have.
\<close>

definition inject :: "json option \<Rightarrow> json option \<Rightarrow> inject_error + jstring" where
  "inject template vals =
     (case (template, vals) of
        (Some (JStr t), Some v) \<Rightarrow>
          if typeof_object v then process_template t v else Inl InvalidPayload
      | _ \<Rightarrow> Inl InvalidPayload)"

text \<open>
  A key is unknown to a document when none of its five expressions matches anywhere
  in the document.
\<close>

definition unknown_key :: "jstring \<Rightarrow> jstring \<Rightarrow> bool" where
  "unknown_key doc key =
     (\<not> has_match (newCmdRegex key) doc \<and> \<not> has_match (defRegex key) doc \<and>
      \<not> has_match (placeholderRegex key) doc \<and> \<not> has_match (varRegex key) doc \<and>
      \<not> has_match (bracketRegex key) doc)"

text \<open>
  A document is settled for a key and an escaped value when each of the five
  replacements, made on the document, replaces every match it finds by the text that
  is there already.
\<close>

definition settled :: "jstring \<Rightarrow> jstring \<Rightarrow> jstring \<Rightarrow> bool" where
  "settled doc key safeVal =
     (stable (newCmdRegex key) (ustr ''$1'' @ safeVal @ ustr ''$2'') doc \<and>
      stable (defRegex key) (ustr ''$1'' @ safeVal @ ustr ''$2'') doc \<and>
      stable (placeholderRegex key) safeVal doc \<and>
      stable (varRegex key) safeVal doc \<and>
      stable (bracketRegex key) safeVal doc)"


section \<open>Schema extraction: validating the model's field list\<close>

text \<open>
  \<^verbatim>\<open>/upload-tex\<close> parses the model's answer with \<^verbatim>\<open>JSON.parse\<close> and validates the
  parsed value; the model starts at the parsed value \<^verbatim>\<open>schema\<close>.

  \<^verbatim>\<open>toLowerCase\<close> maps the code units \<^verbatim>\<open>A\<close> to \<^verbatim>\<open>Z\<close> (65 to 90) to \<^verbatim>\<open>a\<close> to \<^verbatim>\<open>z\<close> and
  leaves the other code units below 128 as they are. What it does with a code unit from
  128 on is given by the case tables of Unicode, which are not part of the repository:
  \<open>lowerU\<close> stands for them, giving the code units written for such a code unit between
  the text before it and the text after it (the Kelvin sign gives \<^verbatim>\<open>k\<close>, a capital sigma
  one of two small sigmas by its place in the word, half of a surrogate pair its half
  of the lower-case pair).
\<close>

type_synonym unicode_lower = "jstring \<Rightarrow> nat \<Rightarrow> jstring \<Rightarrow> jstring"

fun lower_from :: "unicode_lower \<Rightarrow> jstring \<Rightarrow> jstring \<Rightarrow> jstring" where
  "lower_from lowerU pre [] = []"
| "lower_from lowerU pre (c # cs) =
     (if 65 \<le> c \<and> c \<le> 90 then [c + 32]
      else if c < 128 then [c]
      else lowerU pre c cs) @ lower_from lowerU (pre @ [c]) cs"

definition toLowerCase :: "unicode_lower \<Rightarrow> jstring \<Rightarrow> jstring" where
  "toLowerCase lowerU s = lower_from lowerU [] s"

definition canonical_chars :: jstring where
  "canonical_chars = ustr ''abcdefghijklmnopqrstuvwxyz0123456789_''"

text \<open>\<^verbatim>\<open>item.id.toLowerCase().replace(/[^a-z0-9_]/g, '')\<close>\<close>

definition normalize_id :: "unicode_lower \<Rightarrow> jstring \<Rightarrow> jstring" where
  "normalize_id lowerU i = replace_g (NoneOf canonical_chars) [] (toLowerCase lowerU i)"

text \<open>
  \<^verbatim>\<open>trim\<close> removes white space and line terminators at both ends: tab, line feed,
  vertical tab, form feed, carriage return, space, no-break space, U+1680, U+2000 to
  U+200A, U+2028, U+2029, U+202F, U+205F, U+3000 and U+FEFF.
\<close>

definition is_space :: "nat \<Rightarrow> bool" where
  "is_space c =
     (if c \<le> 160 then c \<in> set [9, 10, 11, 12, 13, 32, 160]
      else c \<in> set [5760, 8232, 8233, 8239, 8287, 12288, 65279] \<or>
           (8192 \<le> c \<and> c \<le> 8202))"

definition trim :: "jstring \<Rightarrow> jstring" where
  "trim s = rev (dropWhile is_space (rev (dropWhile is_space s)))"

text \<open>
  Reading a property of a truthy value: an object has its own properties; an array
  (and any other value) has none of the names read here (\<^verbatim>\<open>id\<close>, \<^verbatim>\<open>label\<close>,
  \<^verbatim>\<open>default\<close>). \<open>None\<close> is \<^verbatim>\<open>undefined\<close>.
\<close>

fun get_prop :: "json \<Rightarrow> jstring \<Rightarrow> json option" where
  "get_prop (JObj kvs) k = map_of kvs k"
| "get_prop v k = None"

record field =
  field_id :: jstring
  field_label :: jstring
  field_default :: jstring

text \<open>
  \<^verbatim>\<open>
  schema.filter(item => {
    return item && typeof item === 'object' &&
           typeof item.id === 'string' && typeof item.label === 'string' &&
           item.id.length > 0 && item.label.length > 0;
  })
  \<close>
\<close>

definition keep_item :: "json \<Rightarrow> bool" where
  "keep_item item =
     (truthy item \<and> typeof_object item \<and>
      (case get_prop item (ustr ''id'') of
         Some (JStr i) \<Rightarrow>
           (case get_prop item (ustr ''label'') of
              Some (JStr l) \<Rightarrow> 0 < length i \<and> 0 < length l
            | _ \<Rightarrow> False)
       | _ \<Rightarrow> False))"

text \<open>The text of a property the filter has found to be a string.\<close>

definition str_of :: "json option \<Rightarrow> jstring" where
  "str_of v = (case v of Some (JStr s) \<Rightarrow> s | _ \<Rightarrow> [])"

text \<open>
  \<^verbatim>\<open>
  .map(item => ({
    id: item.id.toLowerCase().replace(/[^a-z0-9_]/g, ''),
    label: item.label.trim(),
    default: String(item.default || '').trim()
  }))
  \<close>
  \<open>None\<close> when \<^verbatim>\<open>String\<close> throws.
\<close>

definition clean_item :: "unicode_lower \<Rightarrow> json \<Rightarrow> field option" where
  "clean_item lowerU item =
     (case string_or_empty (get_prop item (ustr ''default'')) of
        None \<Rightarrow> None
      | Some d \<Rightarrow>
          Some \<lparr> field_id = normalize_id lowerU (str_of (get_prop item (ustr ''id''))),
                 field_label = trim (str_of (get_prop item (ustr ''label''))),
                 field_default = trim d \<rparr>)"

text \<open>
  The errors of the validation: status 500 \<^verbatim>\<open>Expected JSON array from AI\<close>, status 400
  \<^verbatim>\<open>No valid fields found in template\<close>, and status 500 \<^verbatim>\<open>AI extraction failed: ...\<close>
  from the \<^verbatim>\<open>catch\<close> around the whole extraction, which is where an error thrown in
  the \<^verbatim>\<open>map\<close> ends.
\<close>

datatype extract_error = ExpectedArray | NoFieldsFound | ExtractionFailed

definition validate_schema :: "unicode_lower \<Rightarrow> json \<Rightarrow> extract_error + field list" where
  "validate_schema lowerU schema =
     (case schema of
        JArr items \<Rightarrow>
          (case those (map (clean_item lowerU) (filter keep_item items)) of
             None \<Rightarrow> Inl ExtractionFailed
           | Some validatedSchema \<Rightarrow>
               if length validatedSchema = 0 then Inl NoFieldsFound else Inr validatedSchema)
      | _ \<Rightarrow> Inl ExpectedArray)"

section \<open>The compiler chain\<close>

text \<open>
  The scratch directory of one request, as far as the chain reads and writes it:
  the three files \<^verbatim>\<open>resume.tex\<close>, \<^verbatim>\<open>resume.pdf\<close> and \<^verbatim>\<open>resume.log\<close> (\<open>None\<close>: the
  file does not exist), and whether the operating system refuses to remove the PDF
  (\<^verbatim>\<open>unlinkSync\<close> throws) or to read the log (\<^verbatim>\<open>readFileSync\<close> throws). The source
  catches and ignores both errors.
\<close>

record workspace =
  resume_tex :: "jstring option"
  resume_pdf :: "jstring option"
  resume_log :: "jstring option"
  pdf_locked :: bool
  log_locked :: bool

record compiler =
  c_name :: jstring
  c_command :: jstring
  c_description :: jstring

record attempt =
  a_compiler :: jstring
  a_command :: jstring
  a_success :: bool
  a_error :: "jstring option"
  a_log :: jstring

text \<open>
  An external engine, run by \<^verbatim>\<open>exec(command, ...)\<close> in the scratch directory: what the
  callback receives (\<^verbatim>\<open>err?.message\<close>, \<^verbatim>\<open>stdout\<close>, \<^verbatim>\<open>stderr\<close>) and the directory
  the process leaves. A timeout or a non-zero exit is an \<^verbatim>\<open>err\<close>.
\<close>

type_synonym exec_result = "jstring option \<times> jstring \<times> jstring"
type_synonym engine = "jstring \<Rightarrow> workspace \<Rightarrow> exec_result \<times> workspace"

text \<open>
  The three candidates of \<^verbatim>\<open>tryCompileLatex\<close>, in the order of the source. The code unit
  34 is the double quote.
\<close>

definition compilers :: "jstring \<Rightarrow> jstring \<Rightarrow> jstring \<Rightarrow> compiler list" where
  "compilers tectonicPath texPath outputDir =
     [\<lparr> c_name = ustr ''tectonic-local'',
        c_command = [34] @ tectonicPath @ [34] @ ustr '' --outdir '' @ [34] @ outputDir
                    @ [34] @ ustr '' '' @ [34] @ texPath @ [34],
        c_description = ustr ''Tectonic (local executable)'' \<rparr>,
      \<lparr> c_name = ustr ''tectonic-system'',
        c_command = ustr ''tectonic --outdir '' @ [34] @ outputDir @ [34] @ ustr '' ''
                    @ [34] @ texPath @ [34],
        c_description = ustr ''Tectonic (system installation)'' \<rparr>,
      \<lparr> c_name = ustr ''pdflatex'',
        c_command = ustr ''pdflatex -output-directory='' @ [34] @ outputDir @ [34]
                    @ ustr '' -interaction=nonstopmode '' @ [34] @ texPath @ [34],
        c_description = ustr ''pdfLaTeX (traditional)'' \<rparr>]"

text \<open>\<^verbatim>\<open>fullLog.slice(-n)\<close>: the last \<open>n\<close> code units.\<close>

definition last_chars :: "nat \<Rightarrow> jstring \<Rightarrow> jstring" where
  "last_chars n s = drop (length s - n) s"

text \<open>
  \<^verbatim>\<open>
  let fullLog = stdout + stderr;
  if (fs.existsSync(logPath)) {
    try { fullLog = fs.readFileSync(logPath, 'utf8') + '\n' + fullLog; } catch (e) { }
  }
  \<close>
  The code unit 10 is the line feed.
\<close>

definition full_log :: "workspace \<Rightarrow> jstring \<Rightarrow> jstring" where
  "full_log w output =
     (case resume_log w of
        None \<Rightarrow> output
      | Some logContent \<Rightarrow> if log_locked w then output else logContent @ [10] @ output)"

text \<open>
  One run of one candidate, up to \<^verbatim>\<open>attempts.push({...})\<close>: the attempt recorded and
  the directory after the run.
\<close>

definition run_attempt :: "engine \<Rightarrow> compiler \<Rightarrow> workspace \<Rightarrow> attempt \<times> workspace" where
  "run_attempt exec c w =
     (case exec (c_command c) w of
        ((err, stdout, stderr), w1) \<Rightarrow>
          (\<lparr> a_compiler = c_name c,
             a_command = c_command c,
             a_success = (err = None \<and> resume_pdf w1 \<noteq> None),
             a_error = err,
             a_log = last_chars 3000 (full_log w1 (stdout @ stderr)) \<rparr>, w1))"

text \<open>
  \<^verbatim>\<open>try { if (fs.existsSync(pdfPath)) fs.unlinkSync(pdfPath); } catch (e) { /* ignore */ }\<close>
\<close>

definition cleanup_artifact :: "workspace \<Rightarrow> workspace" where
  "cleanup_artifact w =
     (case resume_pdf w of
        None \<Rightarrow> w
      | Some partial \<Rightarrow> if pdf_locked w then w else w\<lparr>resume_pdf := None\<rparr>)"

text \<open>
  \<^verbatim>\<open>tryNextCompiler(index)\<close>, with the list \<^verbatim>\<open>attempts\<close> it appends to and the directory
  passed along. The result is what the callback receives (the error's message, or
  \<open>None\<close> for \<^verbatim>\<open>null\<close>, and the attempts) and the directory then. The pause of one
  second before the next candidate is not modelled.
\<close>

function tryNextCompiler ::
  "engine \<Rightarrow> compiler list \<Rightarrow> nat \<Rightarrow> attempt list \<Rightarrow> workspace \<Rightarrow> jstring option \<times> attempt list \<times> workspace" where
  "tryNextCompiler exec cs index attempts w =
     (if index \<ge> length cs then (Some (ustr ''All LaTeX compilers failed''), attempts, w)
      else
        (case run_attempt exec (cs ! index) w of
           (a, w1) \<Rightarrow>
             if a_success a then (None, attempts @ [a], w1)
             else tryNextCompiler exec cs (index + 1) (attempts @ [a]) (cleanup_artifact w1)))"
  by pat_completeness auto
termination
  by (relation "measure (\<lambda>(exec, cs, index, attempts, w). length cs - index)") auto

declare tryNextCompiler.simps [simp del]

definition tryCompileLatex ::
  "engine \<Rightarrow> jstring \<Rightarrow> jstring \<Rightarrow> jstring \<Rightarrow> workspace \<Rightarrow> jstring option \<times> attempt list \<times> workspace" where
  "tryCompileLatex exec tectonicPath texPath outputDir w =
     tryNextCompiler exec (compilers tectonicPath texPath outputDir) 0 [] w"

text \<open>
  What a run of the chain from candidate \<open>index\<close> adds to the attempts: one attempt for
  each candidate tried, in the order of the list; after a success nothing more, and the
  PDF is there; after the error every remaining candidate was tried and failed.
\<close>

definition chain_outcome ::
  "compiler list \<Rightarrow> nat \<Rightarrow> jstring option \<Rightarrow> attempt list \<Rightarrow> workspace \<Rightarrow> bool" where
  "chain_outcome cs index err new w' =
     (length new \<le> length cs - index \<and>
      map a_compiler new = map c_name (take (length new) (drop index cs)) \<and>
      map a_command new = map c_command (take (length new) (drop index cs)) \<and>
      (case err of
         None \<Rightarrow> new \<noteq> [] \<and> a_success (last new) \<and>
                 list_all (\<lambda>a. \<not> a_success a) (butlast new) \<and> resume_pdf w' \<noteq> None
       | Some msg \<Rightarrow> msg = ustr ''All LaTeX compilers failed'' \<and> length new = length cs - index \<and>
                 list_all (\<lambda>a. \<not> a_success a) new))"

section \<open>Removing the scratch directory\<close>

text \<open>
  \<^verbatim>\<open>
  function safeRemoveDir(dirPath) {
    try {
      if (fs.existsSync(dirPath)) {
        const maxRetries = 3;
        let retries = 0;
        const attempt = () => {
          try {
            fs.rmSync(dirPath, { recursive: true, force: true });
            console.log(...);
          } catch (err) {
            if (++retries < maxRetries && err.code === 'ENOTEMPTY') {
              console.log(...);
              setTimeout(attempt, 1000);
            } else {
              console.warn(...);
            }
          }
        };
        setTimeout(attempt, 500);
      }
    } catch (err) { console.warn(...); }
  }
  \<close>
  The function returns at once and the removals run from timers; the model gives the
  sequence of what happens then. \<open>rmSync k\<close> is the \<^verbatim>\<open>err.code\<close> the call number \<open>k\<close>
  (from 0) of \<^verbatim>\<open>fs.rmSync\<close> throws, or \<open>None\<close> when that call succeeds; call number \<open>k\<close>
  is made with \<^verbatim>\<open>retries = k\<close>.
\<close>

datatype cleanup_event = Wait nat | RmSync | LogCleaned | LogRetry nat | WarnNotRemoved

definition maxRetries :: nat where
  "maxRetries = 3"

function attempt_rm :: "(nat \<Rightarrow> jstring option) \<Rightarrow> nat \<Rightarrow> cleanup_event list" where
  "attempt_rm rmSync retries =
     (case rmSync retries of
        None \<Rightarrow> [RmSync, LogCleaned]
      | Some code \<Rightarrow>
          if retries + 1 < maxRetries \<and> code = ustr ''ENOTEMPTY''
          then [RmSync, LogRetry (retries + 1), Wait 1000] @ attempt_rm rmSync (retries + 1)
          else [RmSync, WarnNotRemoved])"
  by pat_completeness auto
termination
  by (relation "measure (\<lambda>(rmSync, retries). maxRetries - retries)") auto

declare attempt_rm.simps [simp del]

definition safeRemoveDir :: "bool \<Rightarrow> (nat \<Rightarrow> jstring option) \<Rightarrow> cleanup_event list" where
  "safeRemoveDir dir_exists rmSync = (if dir_exists then Wait 500 # attempt_rm rmSync 0 else [])"

section \<open>The request \<^verbatim>\<open>/generate-pdf\<close>\<close>

text \<open>
  What the request meets outside the program: the engines, whether writing
  \<^verbatim>\<open>resume.tex\<close> throws (with which message), the directory \<^verbatim>\<open>mkdtempSync\<close> made,
  the directory of the server (where \<^verbatim>\<open>tectonic.exe\<close> is looked for), and how the
  removal of the scratch directory goes.
\<close>

record environment =
  env_exec :: engine
  env_write_error :: "jstring option"
  env_tmp :: jstring
  env_dirname :: jstring
  env_tmp_exists :: bool
  env_rmSync :: "nat \<Rightarrow> jstring option"

text \<open>\<^verbatim>\<open>path.join(dir, name)\<close> for a directory and a file name.\<close>

definition path_join :: "jstring \<Rightarrow> jstring \<Rightarrow> jstring" where
  "path_join dir name = dir @ ustr ''/'' @ name"

datatype response =
    Rejected inject_error
  | WriteFailed jstring
  | GenerationFailed "attempt list"
  | PdfSent jstring

definition fresh_workspace :: workspace where
  "fresh_workspace =
     \<lparr> resume_tex = None, resume_pdf = None, resume_log = None,
       pdf_locked = False, log_locked = False \<rparr>"

text \<open>
  The handler: the response, and what the calls of \<^verbatim>\<open>safeRemoveDir(tmp)\<close> do. The
  injection errors return before the scratch directory is made.
\<close>

definition generate_pdf ::
  "environment \<Rightarrow> json option \<Rightarrow> json option \<Rightarrow> response \<times> cleanup_event list" where
  "generate_pdf env template vals =
     (case inject template vals of
        Inl e \<Rightarrow> (Rejected e, [])
      | Inr processed \<Rightarrow>
          (case env_write_error env of
             Some msg \<Rightarrow>
               (WriteFailed msg, safeRemoveDir (env_tmp_exists env) (env_rmSync env))
           | None \<Rightarrow>
               (case tryCompileLatex (env_exec env)
                       (path_join (env_dirname env) (ustr ''tectonic.exe''))
                       (path_join (env_tmp env) (ustr ''resume.tex''))
                       (env_tmp env)
                       (fresh_workspace\<lparr>resume_tex := Some processed\<rparr>) of
                  (err, attempts, w) \<Rightarrow>
                    (case resume_pdf w of
                       None \<Rightarrow>
                         (GenerationFailed attempts,
                          safeRemoveDir (env_tmp_exists env) (env_rmSync env))
                     | Some bytes \<Rightarrow>
                         if err \<noteq> None
                         then (GenerationFailed attempts,
                               safeRemoveDir (env_tmp_exists env) (env_rmSync env))
                         else (PdfSent bytes,
                               safeRemoveDir (env_tmp_exists env) (env_rmSync env))))))"

section \<open>Example environments\<close>

text \<open>
  Concrete engines and a concrete environment, used to run the model. With
  \<open>demo_engine\<close> the bundled Tectonic fails and leaves a partial PDF, the system
  Tectonic exits without error and writes nothing, and pdfLaTeX succeeds.
  \<open>locking_engine\<close> differs in one point: the partial PDF the first engine leaves
  cannot be removed. \<open>plain_lower\<close> is a case table that leaves every code unit from
  128 on as it is.
\<close>

definition demo_engine :: engine where
  "demo_engine cmd w =
     (if take 8 cmd = ustr ''pdflatex''
      then ((None, ustr ''done'', []), w\<lparr>resume_pdf := Some (ustr ''%PDF'')\<rparr>)
      else if take 8 cmd = ustr ''tectonic'' then ((None, [], []), w)
      else ((Some (ustr ''Command failed''), [], ustr ''not found''),
            w\<lparr>resume_pdf := Some (ustr ''partial'')\<rparr>))"

definition locking_engine :: engine where
  "locking_engine cmd w =
     (if take 8 cmd = ustr ''pdflatex''
      then ((None, ustr ''done'', []), w\<lparr>resume_pdf := Some (ustr ''%PDF'')\<rparr>)
      else if take 8 cmd = ustr ''tectonic'' then ((None, [], []), w)
      else ((Some (ustr ''Command failed''), [], ustr ''not found''),
            w\<lparr>resume_pdf := Some (ustr ''partial''), pdf_locked := True\<rparr>))"

definition demo_env :: environment where
  "demo_env =
     \<lparr> env_exec = demo_engine, env_write_error = None, env_tmp = ustr ''w'',
       env_dirname = ustr ''srv'', env_tmp_exists = True, env_rmSync = (\<lambda>k. None) \<rparr>"

definition demo_template :: jstring where
  "demo_template =
     BSL # ustr ''documentclass{article}'' @ BSL # ustr ''begin{document}Hello''
       @ BSL # ustr ''end{document}''"

definition plain_lower :: unicode_lower where
  "plain_lower pre c post = [c]"

section \<open>Facts about \<open>replace\<close>\<close>


lemma replace_from_Nil: "match_here re [] = None \<Longrightarrow> replace_from re tmpl pre [] = []"
  by (subst replace_from.simps) simp

lemma replace_from_Cons_None:
  "match_here re (c # cs) = None \<Longrightarrow>
   replace_from re tmpl pre (c # cs) = c # replace_from re tmpl (pre @ [c]) cs"
  by (subst replace_from.simps) simp

lemma replace_from_Some:
  "match_here re s = Some (n, caps) \<Longrightarrow> n \<noteq> 0 \<Longrightarrow>
   replace_from re tmpl pre s =
     get_substitution (take n s) pre (drop n s) caps tmpl @
     replace_from re tmpl (pre @ take n s) (drop n s)"
  by (subst replace_from.simps) simp



text \<open>Where every match is replaced by its own text, \<open>replace\<close> returns the text as it is.\<close>

lemma replace_from_stable:
  "stable_from re tmpl pre s \<Longrightarrow> replace_from re tmpl pre s = s"
proof (induction re tmpl pre s rule: replace_from.induct)
  case (1 re tmpl pre s)
  show ?case
  proof (cases "match_here re s")
    case None
    show ?thesis
    proof (cases s)
      case Nil
      with None show ?thesis by (simp add: replace_from_Nil)
    next
      case (Cons c cs)
      from "1.prems" None Cons have "stable_from re tmpl (pre @ [c]) cs"
        by (subst (asm) stable_from.simps) simp
      with "1.IH"(1) [OF None Cons] have "replace_from re tmpl (pre @ [c]) cs = cs" by simp
      with None Cons show ?thesis by (simp add: replace_from_Cons_None)
    qed
  next
    case (Some x)
    obtain n caps where x: "x = (n, caps)" by (cases x)
    note m = Some [unfolded x]
    from "1.prems" m
    have g: "get_substitution (take n s) pre (drop n s) caps tmpl = take n s"
      by (subst (asm) stable_from.simps) simp
    show ?thesis
    proof (cases "n = 0")
      case True
      show ?thesis
      proof (cases s)
        case Nil
        with m True g show ?thesis by (subst replace_from.simps) simp
      next
        case (Cons c cs)
        from "1.prems" m True Cons have "stable_from re tmpl (pre @ [c]) cs"
          by (subst (asm) stable_from.simps) simp
        with "1.IH"(2) [OF Some x [symmetric] True Cons]
        have "replace_from re tmpl (pre @ [c]) cs = cs" by simp
        with m True g Cons show ?thesis by (subst replace_from.simps) simp
      qed
    next
      case False
      from "1.prems" m False have "stable_from re tmpl (pre @ take n s) (drop n s)"
        by (subst (asm) stable_from.simps) simp
      with "1.IH"(3) [OF Some x [symmetric] False]
      have "replace_from re tmpl (pre @ take n s) (drop n s) = drop n s" by simp
      with replace_from_Some [OF m False, of tmpl pre] g show ?thesis by simp
    qed
  qed
qed

lemma replace_g_stable: "stable re tmpl s \<Longrightarrow> replace_g re tmpl s = s"
  by (simp add: replace_g_def stable_def replace_from_stable)

lemma replace_five_settled: "settled doc key safeVal \<Longrightarrow> replace_five key safeVal doc = doc"
  by (simp add: replace_five_def settled_def Let_def replace_g_stable)















section \<open>Facts about the escaping\<close>







lemma no_match_stable_from: "\<not> has_match re s \<Longrightarrow> stable_from re tmpl pre s"
proof (induction s arbitrary: pre)
  case Nil
  then have "match_here re [] = None"
    by (simp add: matches_at_def split: option.splits)
  then show ?case by (subst stable_from.simps) simp
next
  case (Cons c cs)
  then have m: "match_here re (c # cs) = None" and "\<not> has_match re cs"
    by (auto simp: matches_at_def split: option.splits if_splits)
  with Cons.IH have "stable_from re tmpl (pre @ [c]) cs" by blast
  with m show ?case by (subst stable_from.simps) simp
qed

lemma no_match_stable: "\<not> has_match re s \<Longrightarrow> stable re tmpl s"
  by (simp add: stable_def no_match_stable_from)

section \<open>Facts about the injection\<close>

lemma string_or_empty_table:
  "string_or_empty None = Some []"
  "string_or_empty (Some JNull) = Some []"
  "string_or_empty (Some (JBool False)) = Some []"
  "string_or_empty (Some (JBool True)) = Some (ustr ''true'')"
  "string_or_empty (Some (JNum n)) = Some (if n = ustr ''0'' then [] else n)"
  "string_or_empty (Some (JStr s)) = Some s"
  "string_or_empty (Some (JArr xs)) =
     map_option join_comma (those (map (\<lambda>x. if x = JNull then Some [] else js_String x) xs))"
  "string_or_empty (Some (JObj kvs)) =
     (if map_of kvs (ustr ''toString'') = None then Some (ustr ''[object Object]'') else None)"
  by (auto simp: string_or_empty_def split: option.splits)

lemma js_String_table:
  "js_String JNull = Some (ustr ''null'')"
  "js_String (JBool False) = Some (ustr ''false'')"
  "js_String (JBool True) = Some (ustr ''true'')"
  "js_String (JNum n) = Some n"
  "js_String (JStr s) = Some s"
  "js_String (JObj kvs) =
     (if map_of kvs (ustr ''toString'') = None then Some (ustr ''[object Object]'') else None)"
  by (auto split: option.splits)

lemma unknown_key_settled: "unknown_key doc key \<Longrightarrow> settled doc key safeVal"
  by (simp add: unknown_key_def settled_def no_match_stable)

lemma substitute_entry_unknown:
  "unknown_key doc key \<Longrightarrow> string_or_empty (Some v) = Some text \<Longrightarrow>
   substitute_entry doc (key, v) = Some doc"
  by (simp add: substitute_entry_def replace_five_settled unknown_key_settled)

lemma substitute_append:
  "substitute doc (es1 @ es2) =
     (case substitute doc es1 of None \<Rightarrow> None | Some d \<Rightarrow> substitute d es2)"
  by (induction es1 arbitrary: doc) (simp_all split: option.splits)

lemma substitute_skip:
  "substitute template before = Some doc \<Longrightarrow> unknown_key doc key \<Longrightarrow>
   string_or_empty (Some v) = Some text \<Longrightarrow>
   substitute template (before @ (key, v) # after) = substitute template (before @ after)"
  by (simp add: substitute_append substitute_entry_unknown)

lemma substitute_all_unknown:
  "list_all (\<lambda>kv. unknown_key doc (fst kv) \<and> string_or_empty (Some (snd kv)) \<noteq> None) entries \<Longrightarrow>
   substitute doc entries = Some doc"
proof (induction entries)
  case Nil
  show ?case by simp
next
  case (Cons kv entries)
  then obtain str where "unknown_key doc (fst kv)" "string_or_empty (Some (snd kv)) = Some str"
    by auto
  then have "substitute_entry doc kv = Some doc"
    using substitute_entry_unknown [of doc "fst kv" "snd kv" str] by simp
  with Cons show ?case by simp
qed

lemma substitute_converts:
  "list_all (\<lambda>kv. string_or_empty (Some (snd kv)) \<noteq> None) entries \<Longrightarrow>
   \<exists>p. substitute doc entries = Some p"
proof (induction entries arbitrary: doc)
  case Nil
  show ?case by simp
next
  case (Cons kv entries)
  then obtain str where "string_or_empty (Some (snd kv)) = Some str" by auto
  then have "\<exists>p. substitute_entry doc kv = Some p" by (simp add: substitute_entry_def)
  with Cons show ?case by auto
qed

lemma substitute_throws:
  "string_or_empty (Some v) = None \<Longrightarrow> substitute doc ((key, v) # after) = None"
  by (simp add: substitute_entry_def)

lemma object_entries_typeof: "object_entries v = Some entries \<Longrightarrow> typeof_object v"
  by (cases v) simp_all

lemma inject_valid:
  "object_entries vals = Some entries \<Longrightarrow>
   inject (Some (JStr template)) (Some vals) =
     (case substitute template entries of
        None \<Rightarrow> Inl ProcessingError
      | Some processed \<Rightarrow> check_structure processed)"
  by (simp add: inject_def process_template_def object_entries_typeof)

section \<open>Facts about the validation\<close>

text \<open>Deleting every code unit outside a class keeps exactly the code units of the class.\<close>

lemma replace_from_NoneOf:
  "replace_from (NoneOf cs) [] pre s = filter (\<lambda>c. c \<in> set cs) s"
proof (induction s arbitrary: pre)
  case Nil
  show ?case by (simp add: replace_from_Nil)
next
  case (Cons c s)
  show ?case
  proof (cases "c \<in> set cs")
    case True
    then have "match_here (NoneOf cs) (c # s) = None" by simp
    then show ?thesis using Cons.IH True by (simp add: replace_from_Cons_None)
  next
    case False
    then have "match_here (NoneOf cs) (c # s) = Some (1, [])" by simp
    from replace_from_Some [OF this, of "[]" pre] Cons.IH False
    show ?thesis by simp
  qed
qed

lemma normalize_id_filter:
  "normalize_id lowerU i = filter (\<lambda>c. c \<in> set canonical_chars) (toLowerCase lowerU i)"
  by (simp add: normalize_id_def replace_g_def replace_from_NoneOf)

lemma lower_from_ascii:
  "list_all (\<lambda>c. c < 128) s \<Longrightarrow>
   lower_from lowerU pre s = map (\<lambda>c. if 65 \<le> c \<and> c \<le> 90 then c + 32 else c) s"
  by (induction s arbitrary: pre) auto

lemma toLowerCase_ascii:
  "list_all (\<lambda>c. c < 128) s \<Longrightarrow>
   toLowerCase lowerU s = map (\<lambda>c. if 65 \<le> c \<and> c \<le> 90 then c + 32 else c) s"
  by (simp add: toLowerCase_def lower_from_ascii)

lemma keep_item_JObj:
  "keep_item (JObj kvs) \<longleftrightarrow>
     (\<exists>i l. map_of kvs (ustr ''id'') = Some (JStr i) \<and> i \<noteq> [] \<and>
        map_of kvs (ustr ''label'') = Some (JStr l) \<and> l \<noteq> [])"
proof (cases "map_of kvs (ustr ''id'')")
  case None
  then show ?thesis by (simp add: keep_item_def)
next
  case (Some x)
  note idx = Some
  show ?thesis
  proof (cases x)
    case (JStr i)
    show ?thesis
    proof (cases "map_of kvs (ustr ''label'')")
      case None
      then show ?thesis using idx JStr by (simp add: keep_item_def)
    next
      case (Some y)
      then show ?thesis using idx JStr by (cases y) (simp_all add: keep_item_def)
    qed
  qed (simp_all add: keep_item_def idx)
qed

lemma keep_item_iff:
  "keep_item item \<longleftrightarrow>
     (\<exists>kvs i l. item = JObj kvs \<and> map_of kvs (ustr ''id'') = Some (JStr i) \<and> i \<noteq> [] \<and>
        map_of kvs (ustr ''label'') = Some (JStr l) \<and> l \<noteq> [])"
proof (cases item)
  case (JObj kvs)
  then show ?thesis using keep_item_JObj [of kvs] by simp
qed (simp_all add: keep_item_def)

text \<open>A trimmed text is empty or has no white space at either end.\<close>

lemma trim_ends:
  "trim s = [] \<or> (\<not> is_space (hd (trim s)) \<and> \<not> is_space (last (trim s)))"
proof (cases "trim s = []")
  case True
  then show ?thesis by simp
next
  case False
  let ?d = "dropWhile is_space s"
  let ?r = "dropWhile is_space (rev ?d)"
  have t: "trim s = rev ?r" by (simp add: trim_def)
  from False t have rne: "?r \<noteq> []" by simp
  then have l: "\<not> is_space (hd ?r)" by (rule hd_dropWhile)
  from rne have "rev ?d \<noteq> []" by (metis dropWhile.simps(1))
  then have dne: "?d \<noteq> []" by simp
  then have h: "\<not> is_space (hd ?d)" by (rule hd_dropWhile)
  have la: "last (trim s) = hd ?r" using rne t by (simp add: last_rev)
  obtain ys where ys: "rev ?d = ys @ ?r"
    by (metis takeWhile_dropWhile_id)
  then have "?d = rev ?r @ rev ys" by (metis rev_append rev_rev_ident)
  then have "hd ?d = hd (rev ?r)" using rne by (metis hd_append2 rev_is_Nil_conv)
  then have "hd (trim s) = hd ?d" using t by simp
  with la l h show ?thesis by simp
qed

text \<open>What \<open>trim\<close> removes is white space before and white space after.\<close>

lemma trim_split:
  "\<exists>a b. s = a @ trim s @ b \<and> list_all is_space a \<and> list_all is_space b"
proof -
  let ?a = "takeWhile is_space s"
  let ?d = "dropWhile is_space s"
  let ?b = "rev (takeWhile is_space (rev ?d))"
  have "rev (takeWhile is_space (rev ?d) @ dropWhile is_space (rev ?d)) = rev (rev ?d)"
    by (simp only: takeWhile_dropWhile_id)
  then have "rev (dropWhile is_space (rev ?d)) @ ?b = ?d"
    by (simp only: rev_append rev_rev_ident)
  then have d: "?d = trim s @ ?b" by (simp only: trim_def)
  have "s = ?a @ ?d" by simp
  with d have "s = ?a @ trim s @ ?b" by simp
  moreover have "list_all is_space ?a"
    by (auto simp: list_all_iff dest: set_takeWhileD)
  moreover have "list_all is_space ?b"
    by (auto simp: list_all_iff dest: set_takeWhileD)
  ultimately show ?thesis by blast
qed

lemma those_eq_Some: "those xs = Some ys \<longleftrightarrow> xs = map Some ys"
proof (induction xs arbitrary: ys)
  case Nil
  show ?case by auto
next
  case (Cons x xs)
  show ?case
  proof (cases x)
    case None
    then show ?thesis by auto
  next
    case (Some y)
    show ?thesis
    proof (cases "those xs")
      case None
      with Some Cons.IH show ?thesis by (cases ys) auto
    next
      case (Some zs)
      with \<open>x = Some y\<close> Cons.IH [of zs] Cons.IH show ?thesis by (cases ys) auto
    qed
  qed
qed

lemma those_eq_None: "those xs = None \<longleftrightarrow> None \<in> set xs"
  by (induction xs) (auto split: option.splits)

lemma clean_item_None:
  "clean_item lowerU item = None \<longleftrightarrow> string_or_empty (get_prop item (ustr ''default'')) = None"
  by (simp add: clean_item_def split: option.splits)

lemma validate_schema_NoFields:
  "validate_schema lowerU (JArr items) = Inl NoFieldsFound \<longleftrightarrow> filter keep_item items = []"
proof (cases "those (map (clean_item lowerU) (filter keep_item items))")
  case None
  then have "None \<in> set (map (clean_item lowerU) (filter keep_item items))"
    by (simp only: those_eq_None)
  then have "filter keep_item items \<noteq> []" by (auto simp: filter_empty_conv)
  with None show ?thesis by (simp add: validate_schema_def)
next
  case (Some flds)
  then have "map (clean_item lowerU) (filter keep_item items) = map Some flds"
    by (simp only: those_eq_Some)
  then have "length (filter keep_item items) = length flds"
    by (metis length_map)
  with Some show ?thesis by (auto simp: validate_schema_def)
qed

lemma validate_schema_Failed:
  "validate_schema lowerU (JArr items) = Inl ExtractionFailed \<longleftrightarrow>
     (\<exists>item. item \<in> set items \<and> keep_item item \<and>
        string_or_empty (get_prop item (ustr ''default'')) = None)"
proof (cases "those (map (clean_item lowerU) (filter keep_item items))")
  case None
  then have "None \<in> set (map (clean_item lowerU) (filter keep_item items))"
    by (simp only: those_eq_None)
  then obtain item where "item \<in> set items" "keep_item item" "clean_item lowerU item = None"
    by auto
  with None show ?thesis by (auto simp: validate_schema_def clean_item_None)
next
  case (Some flds)
  then have m: "map (clean_item lowerU) (filter keep_item items) = map Some flds"
    by (simp only: those_eq_Some)
  have "\<not> (\<exists>item. item \<in> set items \<and> keep_item item \<and>
        string_or_empty (get_prop item (ustr ''default'')) = None)"
  proof
    assume "\<exists>item. item \<in> set items \<and> keep_item item \<and>
        string_or_empty (get_prop item (ustr ''default'')) = None"
    then obtain item where "item \<in> set (filter keep_item items)" "clean_item lowerU item = None"
      by (auto simp: clean_item_None)
    then have "None \<in> set (map (clean_item lowerU) (filter keep_item items))"
      by force
    with m show False by auto
  qed
  with Some show ?thesis by (auto simp: validate_schema_def)
qed

lemma validate_schema_array_Inr:
  "validate_schema lowerU (JArr items) = Inr flds \<longleftrightarrow>
     flds \<noteq> [] \<and> map (clean_item lowerU) (filter keep_item items) = map Some flds"
proof (cases "those (map (clean_item lowerU) (filter keep_item items))")
  case None
  then have "map (clean_item lowerU) (filter keep_item items) \<noteq> map Some flds"
    by (simp add: those_eq_Some [symmetric])
  with None show ?thesis by (simp add: validate_schema_def)
next
  case (Some ys)
  then have "map (clean_item lowerU) (filter keep_item items) = map Some ys"
    by (simp only: those_eq_Some)
  with Some show ?thesis by (auto simp: validate_schema_def)
qed

lemma validate_schema_Inr:
  "validate_schema lowerU schema = Inr flds \<Longrightarrow>
   \<exists>items. schema = JArr items \<and> flds \<noteq> [] \<and>
           map (clean_item lowerU) (filter keep_item items) = map Some flds"
proof (cases schema)
  case (JArr items)
  assume "validate_schema lowerU schema = Inr flds"
  with JArr show ?thesis using validate_schema_array_Inr [of lowerU items flds] by simp
qed (simp_all add: validate_schema_def)

lemma clean_item_kept:
  "map_of kvs (ustr ''id'') = Some (JStr i) \<Longrightarrow> map_of kvs (ustr ''label'') = Some (JStr l) \<Longrightarrow>
   string_or_empty (map_of kvs (ustr ''default'')) = Some d \<Longrightarrow>
   clean_item lowerU (JObj kvs) =
     Some \<lparr> field_id = filter (\<lambda>c. c \<in> set canonical_chars) (toLowerCase lowerU i),
            field_label = trim l,
            field_default = trim d \<rparr>"
  by (simp add: clean_item_def str_of_def normalize_id_filter)

section \<open>Facts about the compiler chain\<close>

lemma run_attempt_fields:
  "run_attempt exec c w = (a, w1) \<Longrightarrow>
   a_compiler a = c_name c \<and> a_command a = c_command c \<and>
   w1 = snd (exec (c_command c) w) \<and>
   a_error a = fst (fst (exec (c_command c) w)) \<and>
   (a_success a \<longleftrightarrow> fst (fst (exec (c_command c) w)) = None \<and> resume_pdf w1 \<noteq> None)"
  by (auto simp: run_attempt_def split: prod.splits)

lemma tryNext_exhausted:
  "length cs \<le> index \<Longrightarrow>
   tryNextCompiler exec cs index atts w = (Some (ustr ''All LaTeX compilers failed''), atts, w)"
  by (subst tryNextCompiler.simps) simp

lemma tryNext_success:
  "index < length cs \<Longrightarrow> run_attempt exec (cs ! index) w = (a, w1) \<Longrightarrow> a_success a \<Longrightarrow>
   tryNextCompiler exec cs index atts w = (None, atts @ [a], w1)"
  by (subst tryNextCompiler.simps) simp

lemma tryNext_failure:
  "index < length cs \<Longrightarrow> run_attempt exec (cs ! index) w = (a, w1) \<Longrightarrow> \<not> a_success a \<Longrightarrow>
   tryNextCompiler exec cs index atts w =
     tryNextCompiler exec cs (index + 1) (atts @ [a]) (cleanup_artifact w1)"
  by (subst tryNextCompiler.simps) simp

lemma tryNext_general:
  "tryNextCompiler exec cs index atts w = (err, atts', w') \<Longrightarrow>
   \<exists>new. atts' = atts @ new \<and> chain_outcome cs index err new w'"
proof (induction exec cs index atts w arbitrary: err atts' w' rule: tryNextCompiler.induct)
  case (1 exec cs index attempts w)
  show ?case
  proof (cases "length cs \<le> index")
    case True
    with "1.prems" have "err = Some (ustr ''All LaTeX compilers failed'')" "atts' = attempts" "w' = w"
      by (simp_all add: tryNext_exhausted)
    with True show ?thesis by (simp add: chain_outcome_def)
  next
    case False
    then have lt: "index < length cs" by simp
    obtain a w1 where ra: "run_attempt exec (cs ! index) w = (a, w1)"
      by (cases "run_attempt exec (cs ! index) w")
    note rf = run_attempt_fields [OF ra]
    have dr: "drop index cs = cs ! index # drop (Suc index) cs"
      using lt by (simp add: Cons_nth_drop_Suc)
    show ?thesis
    proof (cases "a_success a")
      case True
      with "1.prems" lt ra have "err = None" "atts' = attempts @ [a]" "w' = w1"
        by (simp_all add: tryNext_success)
      moreover have "chain_outcome cs index None [a] w1"
        using True rf lt dr by (simp add: chain_outcome_def)
      ultimately show ?thesis by blast
    next
      case f: False
      have step: "tryNextCompiler exec cs (index + 1) (attempts @ [a]) (cleanup_artifact w1)
                    = (err, atts', w')"
        using "1.prems" tryNext_failure [OF lt ra f] by simp
      have ge: "\<not> length cs \<le> index" using lt by simp
      from "1.IH" [OF ge ra [symmetric] f step]
      obtain new where n: "atts' = (attempts @ [a]) @ new"
        and co: "chain_outcome cs (index + 1) err new w'" by blast
      have "chain_outcome cs index err (a # new) w'"
      proof (cases err)
        case None
        with co f rf lt dr show ?thesis
          by (auto simp: chain_outcome_def)
      next
        case (Some msg)
        with co f rf lt dr show ?thesis
          by (auto simp: chain_outcome_def)
      qed
      with n show ?thesis by simp
    qed
  qed
qed

lemma cleanup_artifact_unlocked: "\<not> pdf_locked v \<Longrightarrow> resume_pdf (cleanup_artifact v) = None"
  by (simp add: cleanup_artifact_def split: option.splits)

lemma cleanup_artifact_locked: "pdf_locked v \<Longrightarrow> cleanup_artifact v = v"
  by (simp add: cleanup_artifact_def split: option.splits)

section \<open>Facts about the cleanup\<close>

lemma attempt_rm_ok: "rmSync k = None \<Longrightarrow> attempt_rm rmSync k = [RmSync, LogCleaned]"
  by (subst attempt_rm.simps) simp

lemma attempt_rm_giveup:
  "rmSync k = Some code \<Longrightarrow> \<not> (k + 1 < maxRetries \<and> code = ustr ''ENOTEMPTY'') \<Longrightarrow>
   attempt_rm rmSync k = [RmSync, WarnNotRemoved]"
  by (subst attempt_rm.simps) simp

lemma attempt_rm_retry:
  "rmSync k = Some (ustr ''ENOTEMPTY'') \<Longrightarrow> k + 1 < maxRetries \<Longrightarrow>
   attempt_rm rmSync k = [RmSync, LogRetry (k + 1), Wait 1000] @ attempt_rm rmSync (k + 1)"
  by (subst attempt_rm.simps) simp

lemma attempt_rm_last:
  "attempt_rm rmSync 2 = (if rmSync 2 = None then [RmSync, LogCleaned] else [RmSync, WarnNotRemoved])"
proof (cases "rmSync 2")
  case None
  then show ?thesis by (simp add: attempt_rm_ok)
next
  case (Some code)
  then show ?thesis using attempt_rm_giveup [of rmSync 2 code] by (simp add: maxRetries_def)
qed

lemma attempt_rm_second:
  "attempt_rm rmSync 1 =
     (if rmSync 1 = None then [RmSync, LogCleaned]
      else if rmSync 1 = Some (ustr ''ENOTEMPTY'') then [RmSync, LogRetry 2, Wait 1000] @ attempt_rm rmSync 2
      else [RmSync, WarnNotRemoved])"
proof (cases "rmSync 1")
  case None
  then show ?thesis by (simp add: attempt_rm_ok)
next
  case (Some code)
  show ?thesis
  proof (cases "code = ustr ''ENOTEMPTY''")
    case True
    with Some attempt_rm_retry [of rmSync 1] show ?thesis
      by (simp add: maxRetries_def numeral_2_eq_2)
  next
    case False
    with Some attempt_rm_giveup [of rmSync 1 code] show ?thesis by simp
  qed
qed

lemma attempt_rm_first:
  "attempt_rm rmSync 0 =
     (if rmSync 0 = None then [RmSync, LogCleaned]
      else if rmSync 0 = Some (ustr ''ENOTEMPTY'') then [RmSync, LogRetry 1, Wait 1000] @ attempt_rm rmSync 1
      else [RmSync, WarnNotRemoved])"
proof (cases "rmSync 0")
  case None
  then show ?thesis by (simp add: attempt_rm_ok)
next
  case (Some code)
  show ?thesis
  proof (cases "code = ustr ''ENOTEMPTY''")
    case True
    with Some attempt_rm_retry [of rmSync 0] show ?thesis
      by (simp add: maxRetries_def)
  next
    case False
    with Some attempt_rm_giveup [of rmSync 0 code] show ?thesis by simp
  qed
qed

lemma generate_pdf_cleanup:
  "snd (generate_pdf env template vals) =
     (case fst (generate_pdf env template vals) of
        Rejected e \<Rightarrow> []
      | _ \<Rightarrow> safeRemoveDir (env_tmp_exists env) (env_rmSync env))"
  by (simp add: generate_pdf_def split: sum.splits option.splits prod.splits)

lemma generate_pdf_response_independent:
  "fst (generate_pdf (env\<lparr>env_tmp_exists := ex, env_rmSync := rm\<rparr>) template vals) =
   fst (generate_pdf env template vals)"
  by (simp add: generate_pdf_def split: sum.splits option.splits prod.splits)

section \<open>Escaping (claim C1)\<close>

text \<open>
  Claim C1: the escaping function escapes the backslash first, then the braces, then
  the reserved symbols, and no later step escapes again what an earlier step wrote,
  so that a special character of a value comes out correctly escaped.

  The steps run in that order, but the second step does escape the braces the first
  one wrote: a backslash becomes \<^verbatim>\<open>\textbackslash\{\}\<close>, not \<^verbatim>\<open>\textbackslash{}\<close>. The
  fourth step of the source is there to undo this, but its expression starts with a
  tab character (\<^verbatim>\<open>\t\<close>) instead of a backslash and never matches.
\<close>

theorem escapeLatex_backslash_braces_escaped_again:
  "escapeLatex [BSL] = BSL # ustr ''textbackslash'' @ [BSL, LBRACE, BSL, RBRACE]"
  by code_simp

section \<open>The five placeholder forms (claim C2)\<close>

text \<open>
  Claim C2: for a key of the value map every occurrence of each of the five placeholder
  forms is replaced, in a fixed order, and replacing one form never damages an
  occurrence of another form of the same key.

  The order is fixed, but the bare form \<^verbatim>\<open>{key}\<close> is replaced before the form
  \<^verbatim>\<open>\VAR{key}\<close>, whose last part it is: of \<^verbatim>\<open>\VAR{name}\<close> the braces and the key are
  replaced and \<^verbatim>\<open>\VAR\<close> stays in front of the value.
\<close>

theorem var_placeholder_damaged_by_bare_form:
  "substitute (BSL # ustr ''VAR{name}'') [(ustr ''name'', JStr (ustr ''X''))]
     = Some (BSL # ustr ''VARX'')"
  by code_simp

section \<open>The compiler chain (claim C3)\<close>

text \<open>
  Claim C3, as amended: for every list of candidate engines the chain makes at most one
  attempt per candidate, in the order of the list; an attempt counts as successful
  exactly when the process ended without error and the PDF exists (ending without
  error is not enough); after a failed attempt the chain goes on to the next candidate
  from the directory in which it has removed the PDF, if one was there, except that an
  error of the removal itself is ignored and the PDF then stays; the chain stops at
  the first success, with the PDF in the directory, and when every candidate has
  failed it returns the error with the attempts of all candidates in order.
\<close>

theorem compiler_chain_behaviour:
  "tryNextCompiler exec cs 0 [] w = (err, attempts, w') \<Longrightarrow>
     length attempts \<le> length cs \<and>
     map a_compiler attempts = map c_name (take (length attempts) cs) \<and>
     map a_command attempts = map c_command (take (length attempts) cs) \<and>
     (err = None \<longrightarrow>
        attempts \<noteq> [] \<and> a_success (last attempts) \<and>
        list_all (\<lambda>a. \<not> a_success a) (butlast attempts) \<and> resume_pdf w' \<noteq> None) \<and>
     (err \<noteq> None \<longrightarrow>
        err = Some (ustr ''All LaTeX compilers failed'') \<and> length attempts = length cs \<and>
        list_all (\<lambda>a. \<not> a_success a) attempts) \<and>
     (a_success (fst (run_attempt exec c v)) \<longleftrightarrow>
        fst (fst (exec (c_command c) v)) = None \<and>
        resume_pdf (snd (exec (c_command c) v)) \<noteq> None) \<and>
     (index < length cs \<and> \<not> a_success (fst (run_attempt exec (cs ! index) v)) \<longrightarrow>
        tryNextCompiler exec cs index atts v =
          tryNextCompiler exec cs (index + 1) (atts @ [fst (run_attempt exec (cs ! index) v)])
            (cleanup_artifact (snd (run_attempt exec (cs ! index) v)))) \<and>
     (\<not> pdf_locked v \<longrightarrow> resume_pdf (cleanup_artifact v) = None) \<and>
     (pdf_locked v \<longrightarrow> cleanup_artifact v = v)"
proof -
  assume r: "tryNextCompiler exec cs 0 [] w = (err, attempts, w')"
  from tryNext_general [OF r] have co: "chain_outcome cs 0 err attempts w'" by simp
  have p1: "length attempts \<le> length cs"
    and p2: "map a_compiler attempts = map c_name (take (length attempts) cs)"
    and p3: "map a_command attempts = map c_command (take (length attempts) cs)"
    using co by (simp_all add: chain_outcome_def)
  have p4: "err = None \<longrightarrow>
        attempts \<noteq> [] \<and> a_success (last attempts) \<and>
        list_all (\<lambda>a. \<not> a_success a) (butlast attempts) \<and> resume_pdf w' \<noteq> None"
    using co by (auto simp: chain_outcome_def)
  have p5: "err \<noteq> None \<longrightarrow>
        err = Some (ustr ''All LaTeX compilers failed'') \<and> length attempts = length cs \<and>
        list_all (\<lambda>a. \<not> a_success a) attempts"
    using co by (cases err) (simp_all add: chain_outcome_def)
  have p6: "a_success (fst (run_attempt exec c v)) \<longleftrightarrow>
        fst (fst (exec (c_command c) v)) = None \<and>
        resume_pdf (snd (exec (c_command c) v)) \<noteq> None"
    using run_attempt_fields [of exec c v "fst (run_attempt exec c v)" "snd (run_attempt exec c v)"]
    by simp
  have p7: "index < length cs \<and> \<not> a_success (fst (run_attempt exec (cs ! index) v)) \<longrightarrow>
        tryNextCompiler exec cs index atts v =
          tryNextCompiler exec cs (index + 1) (atts @ [fst (run_attempt exec (cs ! index) v)])
            (cleanup_artifact (snd (run_attempt exec (cs ! index) v)))"
    using tryNext_failure [of index cs exec v "fst (run_attempt exec (cs ! index) v)"
        "snd (run_attempt exec (cs ! index) v)" atts]
    by simp
  have p8: "\<not> pdf_locked v \<longrightarrow> resume_pdf (cleanup_artifact v) = None"
    by (simp add: cleanup_artifact_unlocked)
  have p9: "pdf_locked v \<longrightarrow> cleanup_artifact v = v"
    by (simp add: cleanup_artifact_locked)
  from p1 p2 p3 p4 p5 p6 p7 p8 p9 show ?thesis by blast
qed

text \<open>
  The three candidates of the source with \<open>demo_engine\<close>: the first fails and leaves a
  partial PDF, which is removed; the second ends without error and writes nothing, so
  it fails too; the third succeeds.
\<close>

theorem compiler_chain_behaviour_witness:
  "fst (tryNextCompiler demo_engine (compilers (ustr ''t.exe'') (ustr ''w/resume.tex'') (ustr ''w'')) 0 []
       fresh_workspace) = None \<and>
   map a_compiler (fst (snd (tryNextCompiler demo_engine (compilers (ustr ''t.exe'') (ustr ''w/resume.tex'') (ustr ''w'')) 0 []
       fresh_workspace))) = [ustr ''tectonic-local'', ustr ''tectonic-system'', ustr ''pdflatex''] \<and>
   map a_success (fst (snd (tryNextCompiler demo_engine (compilers (ustr ''t.exe'') (ustr ''w/resume.tex'') (ustr ''w'')) 0 []
       fresh_workspace))) = [False, False, True] \<and>
   resume_pdf (snd (snd (tryNextCompiler demo_engine (compilers (ustr ''t.exe'') (ustr ''w/resume.tex'') (ustr ''w'')) 0 []
       fresh_workspace))) = Some (ustr ''%PDF'')"
proof -
  let ?cs = "compilers (ustr ''t.exe'') (ustr ''w/resume.tex'') (ustr ''w'')"
  obtain err attempts w' where
    r: "tryNextCompiler demo_engine ?cs 0 [] fresh_workspace = (err, attempts, w')"
    by (cases "tryNextCompiler demo_engine ?cs 0 [] fresh_workspace")
  have e: "fst (tryNextCompiler demo_engine ?cs 0 [] fresh_workspace) = None"
    by code_simp
  have s: "map a_success (fst (snd (tryNextCompiler demo_engine ?cs 0 [] fresh_workspace)))
            = [False, False, True]"
    by code_simp
  have p: "resume_pdf (snd (snd (tryNextCompiler demo_engine ?cs 0 [] fresh_workspace))) = Some (ustr ''%PDF'')"
    by code_simp
  have n: "map c_name ?cs = [ustr ''tectonic-local'', ustr ''tectonic-system'', ustr ''pdflatex'']"
    by (simp add: compilers_def)
  from s r have "length (map a_success attempts) = 3" by simp
  then have len: "length attempts = 3" by simp
  from compiler_chain_behaviour [OF r]
  have "map a_compiler attempts = map c_name (take (length attempts) ?cs)"
    by blast
  with len n have "map a_compiler attempts = [ustr ''tectonic-local'', ustr ''tectonic-system'', ustr ''pdflatex'']"
    by (simp add: compilers_def)
  with r e s p show ?thesis by simp
qed

text \<open>
  With \<open>locking_engine\<close> the partial PDF of the failed first attempt cannot be removed:
  it is still there when the second candidate is tried, and the second candidate,
  which writes nothing, is recorded as the success.
\<close>

theorem stale_artifact_survives_failed_removal:
  "resume_pdf (cleanup_artifact (snd (run_attempt locking_engine
       (hd (compilers (ustr ''t.exe'') (ustr ''w/resume.tex'') (ustr ''w''))) fresh_workspace))) = Some (ustr ''partial'') \<and>
   map a_success (fst (snd (tryCompileLatex locking_engine (ustr ''t.exe'') (ustr ''w/resume.tex'') (ustr ''w'') fresh_workspace)))
     = [False, True] \<and>
   resume_pdf (snd (snd (tryCompileLatex locking_engine (ustr ''t.exe'') (ustr ''w/resume.tex'') (ustr ''w'') fresh_workspace)))
     = Some (ustr ''partial'')"
  by code_simp

section \<open>Applying the substitution twice (claim C4)\<close>




section \<open>Unknown and missing ids (claim C5)\<close>

text \<open>
  Claim C5, as amended: an entry of the value map whose key, when its turn comes, matches
  no placeholder of the document as the entries before it have left it is ignored: the
  document stays as it is, the result of the whole loop is the one without the entry,
  and no error arises, provided the value can be made a string. A string, \<^verbatim>\<open>null\<close>, a
  boolean and a number always can; for an object with a property \<^verbatim>\<open>toString\<close> of its own
  \<^verbatim>\<open>String\<close> throws, and the request ends with the error of the \<^verbatim>\<open>try\<close> block. A map
  none of whose keys matches the template so leaves the template as it is: the
  placeholders of the ids that are not in the map stay in it and are not replaced by
  the empty string. A key whose value is missing (\<^verbatim>\<open>null\<close>) or empty is substituted by
  the five replacements with the empty value.
\<close>

theorem unmatched_entry_ignored_null_is_empty:
  "(unknown_key doc key \<and> string_or_empty (Some v) = Some str \<longrightarrow>
      substitute_entry doc (key, v) = Some doc) \<and>
   (substitute template before = Some doc \<and> unknown_key doc key \<and>
    string_or_empty (Some v) = Some str \<longrightarrow>
      substitute template (before @ (key, v) # after) = substitute template (before @ after)) \<and>
   (list_all (\<lambda>kv. unknown_key template (fst kv) \<and> string_or_empty (Some (snd kv)) \<noteq> None)
      entries \<longrightarrow>
      substitute template entries = Some template \<and>
      inject (Some (JStr template)) (Some (JObj entries)) = check_structure template) \<and>
   (string_or_empty (Some v) = None \<longrightarrow>
      substitute doc ((key, v) # after) = None \<and>
      inject (Some (JStr doc)) (Some (JObj ((key, v) # after))) = Inl ProcessingError) \<and>
   string_or_empty (Some (JStr s)) = Some s \<and>
   string_or_empty (Some JNull) = Some [] \<and>
   string_or_empty (Some (JBool False)) = Some [] \<and>
   string_or_empty (Some (JBool True)) = Some (ustr ''true'') \<and>
   string_or_empty (Some (JNum n)) = Some (if n = ustr ''0'' then [] else n) \<and>
   string_or_empty (Some (JObj kvs)) =
     (if map_of kvs (ustr ''toString'') = None then Some (ustr ''[object Object]'') else None) \<and>
   substitute_entry doc (key, JNull) = substitute_entry doc (key, JStr []) \<and>
   substitute_entry doc (key, JNull) =
     Some (replace_g (bracketRegex key) []
       (replace_g (varRegex key) []
         (replace_g (placeholderRegex key) []
           (replace_g (defRegex key) (ustr ''$1$2'')
             (replace_g (newCmdRegex key) (ustr ''$1$2'') doc)))))"
proof -
  have a: "unknown_key doc key \<and> string_or_empty (Some v) = Some str \<longrightarrow>
      substitute_entry doc (key, v) = Some doc"
    using substitute_entry_unknown [of doc key v str] by simp
  have b: "substitute template before = Some doc \<and> unknown_key doc key \<and>
    string_or_empty (Some v) = Some str \<longrightarrow>
      substitute template (before @ (key, v) # after) = substitute template (before @ after)"
    using substitute_skip [of template before doc key v str after] by simp
  have c: "list_all (\<lambda>kv. unknown_key template (fst kv) \<and> string_or_empty (Some (snd kv)) \<noteq> None)
      entries \<longrightarrow>
      substitute template entries = Some template \<and>
      inject (Some (JStr template)) (Some (JObj entries)) = check_structure template"
    using substitute_all_unknown [of template entries]
      inject_valid [of "JObj entries" entries template]
    by simp
  have d: "string_or_empty (Some v) = None \<longrightarrow>
      substitute doc ((key, v) # after) = None \<and>
      inject (Some (JStr doc)) (Some (JObj ((key, v) # after))) = Inl ProcessingError"
    using substitute_throws [of v doc key after]
      inject_valid [of "JObj ((key, v) # after)" "(key, v) # after" doc]
    by simp
  have e: "escapeLatex [] = []" by code_simp
  have u: "ustr ''$1'' @ ustr ''$2'' = ustr ''$1$2''" by (simp add: ustr_def)
  have f: "substitute_entry doc (key, JNull) = substitute_entry doc (key, JStr [])"
    by (simp add: substitute_entry_def string_or_empty_def)
  have g: "substitute_entry doc (key, JNull) =
     Some (replace_g (bracketRegex key) []
       (replace_g (varRegex key) []
         (replace_g (placeholderRegex key) []
           (replace_g (defRegex key) (ustr ''$1$2'')
             (replace_g (newCmdRegex key) (ustr ''$1$2'') doc)))))"
    by (simp add: substitute_entry_def string_or_empty_def replace_five_def e u Let_def)
  note t = string_or_empty_table
  show ?thesis
    by (intro conjI) (rule a b c d t(6) t(2) t(3) t(4) t(5) t(8) f g)+
qed

theorem unmatched_entry_ignored_null_is_empty_witness:
  "substitute (ustr ''Dear <<b>>, <<c>>'')
     [(ustr ''b'', JStr (ustr ''Bob'')), (ustr ''a'', JStr (ustr ''x'')), (ustr ''c'', JNull)]
     = Some (ustr ''Dear Bob, '') \<and>
   substitute (ustr ''Dear <<b>>, <<c>>'')
     [(ustr ''b'', JStr (ustr ''Bob'')), (ustr ''c'', JNull)]
     = Some (ustr ''Dear Bob, '') \<and>
   unknown_key (ustr ''Dear Bob, <<c>>'') (ustr ''a'') \<and>
   substitute (ustr ''Dear <<b>>'') [(ustr ''a'', JStr (ustr ''x''))] = Some (ustr ''Dear <<b>>'')"
proof -
  let ?t = "ustr ''Dear <<b>>, <<c>>''"
  let ?before = "[(ustr ''b'', JStr (ustr ''Bob''))]"
  let ?after = "[(ustr ''c'', JNull)]"
  have s: "substitute ?t ?before = Some (ustr ''Dear Bob, <<c>>'')" by code_simp
  have u: "unknown_key (ustr ''Dear Bob, <<c>>'') (ustr ''a'')" by code_simp
  have v: "string_or_empty (Some (JStr (ustr ''x''))) = Some (ustr ''x'')"
    by (simp add: string_or_empty_def)
  have w: "substitute ?t (?before @ ?after) = Some (ustr ''Dear Bob, '')" by code_simp
  from unmatched_entry_ignored_null_is_empty
         [of "ustr ''Dear Bob, <<c>>''" "ustr ''a''" "JStr (ustr ''x'')" "ustr ''x''" ?t ?before ?after]
       s u v
  have "substitute ?t (?before @ (ustr ''a'', JStr (ustr ''x'')) # ?after)
          = substitute ?t (?before @ ?after)"
    by blast
  with w have r: "substitute ?t (?before @ (ustr ''a'', JStr (ustr ''x'')) # ?after)
          = Some (ustr ''Dear Bob, '')" by simp
  have l: "list_all (\<lambda>kv. unknown_key (ustr ''Dear <<b>>'') (fst kv) \<and>
             string_or_empty (Some (snd kv)) \<noteq> None) [(ustr ''a'', JStr (ustr ''x''))]"
    by code_simp
  from unmatched_entry_ignored_null_is_empty
         [where template = "ustr ''Dear <<b>>''" and entries = "[(ustr ''a'', JStr (ustr ''x''))]"] l
  have "substitute (ustr ''Dear <<b>>'') [(ustr ''a'', JStr (ustr ''x''))] = Some (ustr ''Dear <<b>>'')"
    by blast
  with r w u show ?thesis by simp
qed

text \<open>
  The id \<^verbatim>\<open>b\<close> is absent from the map \<^verbatim>\<open>{a: "x"}\<close>; its placeholder stays in the
  document and is not replaced by the empty string.
\<close>

theorem absent_id_placeholder_stays:
  "substitute (ustr ''Dear <<b>>'') [(ustr ''a'', JStr (ustr ''x''))] = Some (ustr ''Dear <<b>>'')"
  by code_simp

section \<open>Validation of the field list (claim C6)\<close>

text \<open>
  Claim C6, as amended: of a parsed answer that is an array the extractor keeps exactly the
  elements that are objects with a non-empty string \<^verbatim>\<open>id\<close> and a non-empty string
  \<^verbatim>\<open>label\<close>, dropping the others silently; a kept element becomes the field whose id is
  the lower-cased \<^verbatim>\<open>id\<close> without the code units outside \<^verbatim>\<open>[a-z0-9_]\<close>, whose label is
  the trimmed \<^verbatim>\<open>label\<close> and whose default is \<^verbatim>\<open>default\<close> made a string and trimmed (the
  empty string for a default that is missing, \<^verbatim>\<open>null\<close>, \<^verbatim>\<open>false\<close>, zero or empty); the id
  \<^verbatim>\<open>Full Name!\<close> becomes \<^verbatim>\<open>fullname\<close>; when no element is kept the extraction fails with
  \<open>NoFieldsFound\<close> and never returns an empty schema. When the default of a kept element
  cannot be made a string (an object with a property \<^verbatim>\<open>toString\<close> of its own, alone or
  in an array), \<^verbatim>\<open>String\<close> throws and the extraction fails with the general error of the
  handler instead of returning a schema.
\<close>

theorem validation_keeps_normalises_or_fails:
  "(validate_schema lowerU (JArr items) = Inl NoFieldsFound \<longleftrightarrow> filter keep_item items = []) \<and>
   (validate_schema lowerU (JArr items) = Inl ExtractionFailed \<longleftrightarrow>
      (\<exists>item. item \<in> set items \<and> keep_item item \<and>
         string_or_empty (get_prop item (ustr ''default'')) = None)) \<and>
   (validate_schema lowerU (JArr items) = Inr flds \<longleftrightarrow>
      flds \<noteq> [] \<and> map (clean_item lowerU) (filter keep_item items) = map Some flds) \<and>
   (keep_item item \<longleftrightarrow>
     (\<exists>kvs i l. item = JObj kvs \<and> map_of kvs (ustr ''id'') = Some (JStr i) \<and> i \<noteq> [] \<and>
        map_of kvs (ustr ''label'') = Some (JStr l) \<and> l \<noteq> [])) \<and>
   (map_of kvs (ustr ''id'') = Some (JStr i) \<and> map_of kvs (ustr ''label'') = Some (JStr l) \<and>
    string_or_empty (map_of kvs (ustr ''default'')) = Some d \<longrightarrow>
      clean_item lowerU (JObj kvs) =
        Some \<lparr> field_id = filter (\<lambda>c. c \<in> set canonical_chars) (toLowerCase lowerU i),
               field_label = trim l,
               field_default = trim d \<rparr>) \<and>
   (clean_item lowerU item = None \<longleftrightarrow>
      string_or_empty (get_prop item (ustr ''default'')) = None) \<and>
   (list_all (\<lambda>c. c < 128) s \<longrightarrow>
      toLowerCase lowerU s = map (\<lambda>c. if 65 \<le> c \<and> c \<le> 90 then c + 32 else c) s) \<and>
   normalize_id lowerU (ustr ''Full Name!'') = ustr ''fullname'' \<and>
   (\<exists>a b. s = a @ trim s @ b \<and> list_all is_space a \<and> list_all is_space b) \<and>
   (trim s = [] \<or> (\<not> is_space (hd (trim s)) \<and> \<not> is_space (last (trim s)))) \<and>
   string_or_empty None = Some [] \<and>
   string_or_empty (Some JNull) = Some [] \<and>
   string_or_empty (Some (JBool False)) = Some [] \<and>
   string_or_empty (Some (JBool True)) = Some (ustr ''true'') \<and>
   string_or_empty (Some (JNum n)) = Some (if n = ustr ''0'' then [] else n) \<and>
   string_or_empty (Some (JStr t)) = Some t \<and>
   string_or_empty (Some (JArr xs)) =
     map_option join_comma (those (map (\<lambda>x. if x = JNull then Some [] else js_String x) xs)) \<and>
   string_or_empty (Some (JObj props)) =
     (if map_of props (ustr ''toString'') = None then Some (ustr ''[object Object]'') else None) \<and>
   js_String (JBool False) = Some (ustr ''false'') \<and>
   js_String (JBool True) = Some (ustr ''true'') \<and>
   js_String (JNum n) = Some n \<and>
   js_String (JStr t) = Some t \<and>
   js_String (JObj props) =
     (if map_of props (ustr ''toString'') = None then Some (ustr ''[object Object]'') else None)"
proof -
  have c5: "map_of kvs (ustr ''id'') = Some (JStr i) \<and> map_of kvs (ustr ''label'') = Some (JStr l) \<and>
    string_or_empty (map_of kvs (ustr ''default'')) = Some d \<longrightarrow>
      clean_item lowerU (JObj kvs) =
        Some \<lparr> field_id = filter (\<lambda>c. c \<in> set canonical_chars) (toLowerCase lowerU i),
               field_label = trim l,
               field_default = trim d \<rparr>"
    using clean_item_kept [of kvs i l d lowerU] by simp
  have c7: "list_all (\<lambda>c. c < 128) s \<longrightarrow>
      toLowerCase lowerU s = map (\<lambda>c. if 65 \<le> c \<and> c \<le> 90 then c + 32 else c) s"
    using toLowerCase_ascii [of s lowerU] by simp
  have c8: "normalize_id lowerU (ustr ''Full Name!'') = ustr ''fullname''" by code_simp
  note t = string_or_empty_table
  note j = js_String_table
  show ?thesis
    by (rule conjI validate_schema_NoFields validate_schema_Failed validate_schema_array_Inr
        keep_item_iff c5 clean_item_None c7 c8 trim_split trim_ends
        t(1) t(2) t(3) t(4) t(5) t(6) t(7) t(8) j(2) j(3) j(4) j(5) j(6))+
qed

theorem validation_keeps_normalises_or_fails_witness:
  "validate_schema plain_lower
     (JArr [JObj [(ustr ''id'', JStr (ustr ''Full Name!'')), (ustr ''label'', JStr (ustr '' Full name '')),
                  (ustr ''default'', JNum (ustr ''12''))],
            JObj [(ustr ''id'', JStr (ustr ''phone''))],
            JNull])
   = Inr [\<lparr> field_id = ustr ''fullname'', field_label = ustr ''Full name'',
            field_default = ustr ''12'' \<rparr>] \<and>
   validate_schema plain_lower (JArr [JObj [(ustr ''id'', JStr (ustr ''phone''))], JNull])
   = Inl NoFieldsFound"
proof -
  let ?full = "JObj [(ustr ''id'', JStr (ustr ''Full Name!'')), (ustr ''label'', JStr (ustr '' Full name '')),
                     (ustr ''default'', JNum (ustr ''12''))]"
  let ?phone = "JObj [(ustr ''id'', JStr (ustr ''phone''))]"
  let ?f = "\<lparr> field_id = ustr ''fullname'', field_label = ustr ''Full name'',
              field_default = ustr ''12'' \<rparr>"
  have k1: "map (clean_item plain_lower) (filter keep_item [?full, ?phone, JNull]) = map Some [?f]"
    by code_simp
  have k2: "filter keep_item [?phone, JNull] = []" by code_simp
  from validation_keeps_normalises_or_fails
         [where lowerU = plain_lower and items = "[?full, ?phone, JNull]" and flds = "[?f]"] k1
  have "validate_schema plain_lower (JArr [?full, ?phone, JNull]) = Inr [?f]"
    by blast
  moreover from validation_keeps_normalises_or_fails
         [where lowerU = plain_lower and items = "[?phone, JNull]"] k2
  have "validate_schema plain_lower (JArr [?phone, JNull]) = Inl NoFieldsFound"
    by blast
  ultimately show ?thesis by simp
qed

text \<open>
  A kept element whose default is the object \<^verbatim>\<open>{"toString": 1}\<close>: no schema is returned
  and the error is not \<open>NoFieldsFound\<close>.
\<close>

theorem validation_fails_on_unconvertible_default:
  "validate_schema plain_lower
     (JArr [JObj [(ustr ''id'', JStr (ustr ''name'')), (ustr ''label'', JStr (ustr ''Name'')),
                  (ustr ''default'', JObj [(ustr ''toString'', JNum (ustr ''1''))])]])
   = Inl ExtractionFailed"
  by code_simp

section \<open>The structure check (claim C7)\<close>

text \<open>
  Claim C7: when the document the substitution has produced lacks \<^verbatim>\<open>\begin{document}\<close>,
  the injection fails with the error \<open>MissingStructure\<close> naming a marker the document
  lacks (\<^verbatim>\<open>\begin{document}\<close> itself when \<^verbatim>\<open>\documentclass\<close> is there), whatever the
  substitution did; and when it lacks \<^verbatim>\<open>\documentclass\<close> it fails with
  \<open>MissingStructure\<close> naming \<^verbatim>\<open>\documentclass\<close>. The substitution produces a document
  whenever every value can be made a string, as every string can; when \<^verbatim>\<open>String\<close>
  throws there is no document to check and the error is that of the \<^verbatim>\<open>try\<close> block.
\<close>

theorem missing_marker_is_missing_structure:
  "object_entries vals = Some entries \<Longrightarrow>
   (substitute template entries = Some processed \<longrightarrow>
      (\<not> includes_str processed (marker_text BeginDocument) \<longrightarrow>
         (\<exists>m. inject (Some (JStr template)) (Some vals) = Inl (MissingStructure m) \<and>
              \<not> includes_str processed (marker_text m))) \<and>
      (\<not> includes_str processed (marker_text DocumentClass) \<longrightarrow>
         inject (Some (JStr template)) (Some vals) = Inl (MissingStructure DocumentClass)) \<and>
      (includes_str processed (marker_text DocumentClass) \<and>
       \<not> includes_str processed (marker_text BeginDocument) \<longrightarrow>
         inject (Some (JStr template)) (Some vals) = Inl (MissingStructure BeginDocument))) \<and>
   (list_all (\<lambda>kv. string_or_empty (Some (snd kv)) \<noteq> None) entries \<longrightarrow>
      (\<exists>p. substitute template entries = Some p)) \<and>
   string_or_empty (Some (JStr s)) = Some s \<and>
   (substitute template entries = None \<longrightarrow>
      inject (Some (JStr template)) (Some vals) = Inl ProcessingError)"
proof -
  assume oe: "object_entries vals = Some entries"
  note i = inject_valid [OF oe, of template]
  have a: "substitute template entries = Some processed \<longrightarrow>
      (\<not> includes_str processed (marker_text BeginDocument) \<longrightarrow>
         (\<exists>m. inject (Some (JStr template)) (Some vals) = Inl (MissingStructure m) \<and>
              \<not> includes_str processed (marker_text m))) \<and>
      (\<not> includes_str processed (marker_text DocumentClass) \<longrightarrow>
         inject (Some (JStr template)) (Some vals) = Inl (MissingStructure DocumentClass)) \<and>
      (includes_str processed (marker_text DocumentClass) \<and>
       \<not> includes_str processed (marker_text BeginDocument) \<longrightarrow>
         inject (Some (JStr template)) (Some vals) = Inl (MissingStructure BeginDocument))"
  proof
    assume s: "substitute template entries = Some processed"
    have j: "inject (Some (JStr template)) (Some vals) = check_structure processed"
      using i s by simp
    show "(\<not> includes_str processed (marker_text BeginDocument) \<longrightarrow>
         (\<exists>m. inject (Some (JStr template)) (Some vals) = Inl (MissingStructure m) \<and>
              \<not> includes_str processed (marker_text m))) \<and>
      (\<not> includes_str processed (marker_text DocumentClass) \<longrightarrow>
         inject (Some (JStr template)) (Some vals) = Inl (MissingStructure DocumentClass)) \<and>
      (includes_str processed (marker_text DocumentClass) \<and>
       \<not> includes_str processed (marker_text BeginDocument) \<longrightarrow>
         inject (Some (JStr template)) (Some vals) = Inl (MissingStructure BeginDocument))"
    proof (cases "includes_str processed (marker_text DocumentClass)")
      case True
      then show ?thesis unfolding j check_structure_def by auto
    next
      case False
      then show ?thesis unfolding j check_structure_def by auto
    qed
  qed
  have b: "list_all (\<lambda>kv. string_or_empty (Some (snd kv)) \<noteq> None) entries \<longrightarrow>
      (\<exists>p. substitute template entries = Some p)"
    using substitute_converts [of entries template] by simp
  have c: "string_or_empty (Some (JStr s)) = Some s" by (rule string_or_empty_table)
  have d: "substitute template entries = None \<longrightarrow>
      inject (Some (JStr template)) (Some vals) = Inl ProcessingError"
    using i by simp
  from a b c d show ?thesis by (intro conjI)
qed

theorem missing_marker_is_missing_structure_witness:
  "object_entries (JObj [(ustr ''name'', JStr (ustr ''Ada''))]) = Some [(ustr ''name'', JStr (ustr ''Ada''))] \<and>
   substitute (BSL # ustr ''documentclass{article} <<name>>'') [(ustr ''name'', JStr (ustr ''Ada''))]
     = Some (BSL # ustr ''documentclass{article} Ada'') \<and>
   \<not> includes_str (BSL # ustr ''documentclass{article} Ada'') (marker_text BeginDocument) \<and>
   inject (Some (JStr (BSL # ustr ''documentclass{article} <<name>>'')))
          (Some (JObj [(ustr ''name'', JStr (ustr ''Ada''))]))
     = Inl (MissingStructure BeginDocument)"
proof -
  let ?e = "[(ustr ''name'', JStr (ustr ''Ada''))]"
  have oe: "object_entries (JObj ?e) = Some ?e" by simp
  have s: "substitute (BSL # ustr ''documentclass{article} <<name>>'') ?e
           = Some (BSL # ustr ''documentclass{article} Ada'')"
    by code_simp
  have nb: "\<not> includes_str (BSL # ustr ''documentclass{article} Ada'') (marker_text BeginDocument)"
    by code_simp
  have dc: "includes_str (BSL # ustr ''documentclass{article} Ada'') (marker_text DocumentClass)"
    by code_simp
  from missing_marker_is_missing_structure
         [OF oe, of "BSL # ustr ''documentclass{article} <<name>>''"
                    "BSL # ustr ''documentclass{article} Ada''"]
    s nb dc
  have "inject (Some (JStr (BSL # ustr ''documentclass{article} <<name>>''))) (Some (JObj ?e))
     = Inl (MissingStructure BeginDocument)"
    by blast
  with oe s nb show ?thesis by simp
qed

section \<open>The fields of a returned schema (claim C8)\<close>

text \<open>
  Claim C8, as amended: every field of a schema the validation returns has an id made
  only of code units of \<^verbatim>\<open>[a-z0-9_]\<close>, and a label and a default without white space at
  either end; the ids of a schema need not differ from one another.
\<close>

theorem returned_fields_canonical:
  "validate_schema lowerU schema = Inr flds \<Longrightarrow> f \<in> set flds \<Longrightarrow>
   set (field_id f) \<subseteq> set canonical_chars \<and>
   (field_label f = [] \<or>
      (\<not> is_space (hd (field_label f)) \<and> \<not> is_space (last (field_label f)))) \<and>
   (field_default f = [] \<or>
      (\<not> is_space (hd (field_default f)) \<and> \<not> is_space (last (field_default f))))"
proof -
  assume v: "validate_schema lowerU schema = Inr flds" and f: "f \<in> set flds"
  from validate_schema_Inr [OF v] obtain items where
    m: "map (clean_item lowerU) (filter keep_item items) = map Some flds" by blast
  from f have "Some f \<in> set (map Some flds)" by simp
  with m have "Some f \<in> set (map (clean_item lowerU) (filter keep_item items))"
    by (simp only:)
  then obtain item where c: "clean_item lowerU item = Some f" by auto
  then obtain d where d: "string_or_empty (get_prop item (ustr ''default'')) = Some d"
    and fd: "f = \<lparr> field_id = normalize_id lowerU (str_of (get_prop item (ustr ''id''))),
                   field_label = trim (str_of (get_prop item (ustr ''label''))),
                   field_default = trim d \<rparr>"
    by (auto simp: clean_item_def split: option.splits)
  have "set (field_id f) \<subseteq> set canonical_chars"
    unfolding fd by (auto simp: normalize_id_filter)
  moreover have "field_label f = [] \<or>
      (\<not> is_space (hd (field_label f)) \<and> \<not> is_space (last (field_label f)))"
    unfolding fd using trim_ends [of "str_of (get_prop item (ustr ''label''))"]
    by simp
  moreover have "field_default f = [] \<or>
      (\<not> is_space (hd (field_default f)) \<and> \<not> is_space (last (field_default f)))"
    unfolding fd using trim_ends [of d]
    by simp
  ultimately show ?thesis by blast
qed

theorem returned_fields_canonical_witness:
  "validate_schema plain_lower
     (JArr [JObj [(ustr ''id'', JStr (ustr ''E-Mail'')), (ustr ''label'', JStr (ustr '' Email ''))]])
     = Inr [\<lparr> field_id = ustr ''email'', field_label = ustr ''Email'', field_default = [] \<rparr>] \<and>
   set (ustr ''email'') \<subseteq> set canonical_chars"
proof -
  let ?f = "\<lparr> field_id = ustr ''email'', field_label = ustr ''Email'', field_default = [] \<rparr>"
  have v: "validate_schema plain_lower
     (JArr [JObj [(ustr ''id'', JStr (ustr ''E-Mail'')), (ustr ''label'', JStr (ustr '' Email ''))]])
     = Inr [?f]"
    by code_simp
  have m: "?f \<in> set [?f]" by simp
  from returned_fields_canonical [OF v m]
  have "set (ustr ''email'') \<subseteq> set canonical_chars" by simp
  with v show ?thesis by simp
qed

text \<open>
  Two elements whose ids differ only in case give two fields with the same id.
\<close>

theorem schema_ids_repeat:
  "validate_schema plain_lower
     (JArr [JObj [(ustr ''id'', JStr (ustr ''a'')), (ustr ''label'', JStr (ustr ''First''))],
            JObj [(ustr ''id'', JStr (ustr ''A'')), (ustr ''label'', JStr (ustr ''Second''))]])
   = Inr [\<lparr> field_id = ustr ''a'', field_label = ustr ''First'', field_default = [] \<rparr>,
          \<lparr> field_id = ustr ''a'', field_label = ustr ''Second'', field_default = [] \<rparr>]"
  by code_simp

section \<open>Removal of the scratch directory (claim C9)\<close>

text \<open>
  Claim C9, as amended: for every outcome of a request that made a scratch directory (the
  PDF sent, the compilation failed, the file not written) the removal of the directory
  is started, and attempted when the directory exists; a removal that fails with the
  code \<^verbatim>\<open>ENOTEMPTY\<close> is tried again a second later, up to three removals in all, and a
  removal that fails with any other code is not tried again; what the removal does
  never reaches the caller, and the response is the same however the removal goes.
\<close>

theorem cleanup_bounded_and_silent:
  "snd (generate_pdf env template vals) =
     (case fst (generate_pdf env template vals) of
        Rejected e \<Rightarrow> []
      | _ \<Rightarrow> safeRemoveDir (env_tmp_exists env) (env_rmSync env)) \<and>
   fst (generate_pdf (env\<lparr>env_tmp_exists := ex, env_rmSync := rm\<rparr>) template vals) =
     fst (generate_pdf env template vals) \<and>
   safeRemoveDir False rm = [] \<and>
   safeRemoveDir True rm =
     Wait 500 #
     (if rm 0 = None then [RmSync, LogCleaned]
      else if rm 0 = Some (ustr ''ENOTEMPTY'') then
        [RmSync, LogRetry 1, Wait 1000] @
        (if rm 1 = None then [RmSync, LogCleaned]
         else if rm 1 = Some (ustr ''ENOTEMPTY'') then
           [RmSync, LogRetry 2, Wait 1000] @
           (if rm 2 = None then [RmSync, LogCleaned] else [RmSync, WarnNotRemoved])
         else [RmSync, WarnNotRemoved])
      else [RmSync, WarnNotRemoved]) \<and>
   1 \<le> count_list (safeRemoveDir True rm) RmSync \<and>
   count_list (safeRemoveDir True rm) RmSync \<le> maxRetries"
proof -
  have s: "safeRemoveDir True rm =
     Wait 500 #
     (if rm 0 = None then [RmSync, LogCleaned]
      else if rm 0 = Some (ustr ''ENOTEMPTY'') then
        [RmSync, LogRetry 1, Wait 1000] @
        (if rm 1 = None then [RmSync, LogCleaned]
         else if rm 1 = Some (ustr ''ENOTEMPTY'') then
           [RmSync, LogRetry 2, Wait 1000] @
           (if rm 2 = None then [RmSync, LogCleaned] else [RmSync, WarnNotRemoved])
         else [RmSync, WarnNotRemoved])
      else [RmSync, WarnNotRemoved])"
    unfolding safeRemoveDir_def attempt_rm_first [of rm] attempt_rm_second [of rm]
      attempt_rm_last [of rm]
    by simp
  have c: "1 \<le> count_list (safeRemoveDir True rm) RmSync \<and>
           count_list (safeRemoveDir True rm) RmSync \<le> maxRetries"
    unfolding s by (simp add: maxRetries_def)
  have f: "safeRemoveDir False rm = []" by (simp add: safeRemoveDir_def)
  have a: "snd (generate_pdf env template vals) =
     (case fst (generate_pdf env template vals) of
        Rejected e \<Rightarrow> []
      | _ \<Rightarrow> safeRemoveDir (env_tmp_exists env) (env_rmSync env))"
    by (rule generate_pdf_cleanup)
  have b: "fst (generate_pdf (env\<lparr>env_tmp_exists := ex, env_rmSync := rm\<rparr>) template vals) =
     fst (generate_pdf env template vals)"
    by (rule generate_pdf_response_independent)
  from a b s c f show ?thesis by blast
qed

text \<open>
  A request that ends with the PDF: the response is the same when every removal fails
  with \<^verbatim>\<open>ENOTEMPTY\<close>, and the removal is then tried three times.
\<close>

theorem cleanup_bounded_and_silent_witness:
  "generate_pdf demo_env (Some (JStr demo_template)) (Some (JObj [])) =
     (PdfSent (ustr ''%PDF''), [Wait 500, RmSync, LogCleaned]) \<and>
   fst (generate_pdf (demo_env\<lparr>env_tmp_exists := True, env_rmSync := (\<lambda>k. Some (ustr ''ENOTEMPTY''))\<rparr>)
          (Some (JStr demo_template)) (Some (JObj []))) = PdfSent (ustr ''%PDF'') \<and>
   safeRemoveDir True (\<lambda>k. Some (ustr ''ENOTEMPTY'')) =
     [Wait 500, RmSync, LogRetry 1, Wait 1000, RmSync, LogRetry 2, Wait 1000, RmSync, WarnNotRemoved]"
proof -
  have g: "generate_pdf demo_env (Some (JStr demo_template)) (Some (JObj [])) =
     (PdfSent (ustr ''%PDF''), [Wait 500, RmSync, LogCleaned])"
    by code_simp
  note t = cleanup_bounded_and_silent
    [of demo_env "Some (JStr demo_template)" "Some (JObj [])" "\<lambda>k. Some (ustr ''ENOTEMPTY'')" True]
  from t g have "fst (generate_pdf (demo_env\<lparr>env_tmp_exists := True, env_rmSync := (\<lambda>k. Some (ustr ''ENOTEMPTY''))\<rparr>)
          (Some (JStr demo_template)) (Some (JObj []))) = PdfSent (ustr ''%PDF'')"
    by simp
  moreover from t have "safeRemoveDir True (\<lambda>k. Some (ustr ''ENOTEMPTY'')) =
     [Wait 500, RmSync, LogRetry 1, Wait 1000, RmSync, LogRetry 2, Wait 1000, RmSync, WarnNotRemoved]"
    by simp
  ultimately show ?thesis using g by simp
qed

text \<open>
  A removal that fails with another code, here \<^verbatim>\<open>EBUSY\<close>, is not tried again.
\<close>

theorem other_failure_not_retried:
  "safeRemoveDir True (\<lambda>k. Some (ustr ''EBUSY'')) = [Wait 500, RmSync, WarnNotRemoved]"
  by code_simp

section \<open>The empty value map (claim C10)\<close>

text \<open>
  Claim C10: with an empty value map the substitution leaves the template exactly as it
  is; the request then checks the structure of the template itself.
\<close>

theorem empty_map_is_identity:
  "substitute template [] = Some template \<and>
   inject (Some (JStr template)) (Some (JObj [])) = check_structure template \<and>
   inject (Some (JStr template)) (Some (JArr [])) = check_structure template"
  by (simp add: inject_def process_template_def)

theorem empty_map_is_identity_witness:
  "substitute (ustr ''Dear <<b>>'') [] = Some (ustr ''Dear <<b>>'')"
  using empty_map_is_identity [of "ustr ''Dear <<b>>''"] by simp

end
